theory Spec2Isabelle
  imports Main "HOL-Library.AList" "HOL-Library.Sublist"
begin

section \<open>Errors raised by the dataset code\<close>

text \<open>
  Every exception the code of \<open>src/esd_data/dataset.py\<close> can raise is a value.
  \<open>NoSuchObject\<close> is not a Python exception: it makes the model total on stores
  that do not hold a referenced object, which Python itself cannot produce.
\<close>

datatype error =
    IndexError
  | KeyError string
  | ValueError string
  | TypeError
  | AttributeError
  | LoadError
  | NoSuchObject

section \<open>Arrays\<close>

text \<open>
  A numpy array is its shape together with its elements in logical row-major (C) order.
  The element type is a parameter: the data type of the arrays is decided by the loader.
\<close>

record 'a ndarray =
  shape :: "nat list"
  data :: "'a list"

definition wf_ndarray :: "'a ndarray \<Rightarrow> bool" where
  "wf_ndarray a = (length (data a) = prod_list (shape a))"

text \<open>Row-major position of a multi-index, by Horner's rule over the axes.\<close>

definition ravel_index :: "nat list \<Rightarrow> nat list \<Rightarrow> nat" where
  "ravel_index shp idx = foldl (\<lambda>acc (n, i). acc * n + i) 0 (zip shp idx)"

text \<open>\<open>a[i0, ..., ik]\<close> with one non-negative index for each axis.\<close>

definition item :: "'a ndarray \<Rightarrow> nat list \<Rightarrow> error + 'a" where
  "item a idx =
     (if length idx = length (shape a) \<and> list_all2 (<) idx (shape a)
      then Inr (data a ! ravel_index (shape a) idx)
      else Inl IndexError)"

text \<open>\<open>np.reshape(img, newshape)\<close>: the same elements in the same order, if the sizes agree.\<close>

definition reshape :: "'a ndarray \<Rightarrow> nat list \<Rightarrow> error + 'a ndarray" where
  "reshape img newshape =
     (if prod_list newshape = prod_list (shape img)
      then Inr \<lparr>shape = newshape, data = data img\<rparr>
      else Inl (ValueError ''cannot reshape array''))"

text \<open>
  \<open>__aggregate_time\<close>: \<open>img.shape[k]\<close> for \<open>k = 0..3\<close> raises on an array of fewer than
  four axes.
\<close>

definition aggregate_time :: "'a ndarray \<Rightarrow> error + 'a ndarray" where
  "aggregate_time img =
     (case shape img of
        s0 # s1 # s2 # s3 # _ \<Rightarrow> reshape img [s0 * s1, s2, s3]
      | _ \<Rightarrow> Inl IndexError)"

text \<open>
  \<open>stack[:, indices, :, :]\<close>: an integer list on the band axis, full slices on the
  other three. The result has one band for each entry of \<open>indices\<close>, in the order of
  \<open>indices\<close>; an array of fewer than four axes or an index outside the band axis
  raises IndexError.
\<close>

definition band_block :: "'a ndarray \<Rightarrow> nat \<Rightarrow> nat \<Rightarrow> 'a list" where
  "band_block a t b =
     (let inner = prod_list (drop 2 (shape a))
      in take inner (drop ((t * (shape a ! 1) + b) * inner) (data a)))"

definition take_bands :: "'a ndarray \<Rightarrow> nat list \<Rightarrow> error + 'a ndarray" where
  "take_bands a indices =
     (case shape a of
        s0 # s1 # s2 # s3 # rest \<Rightarrow>
          if list_all (\<lambda>i. i < s1) indices
          then Inr \<lparr>shape = s0 # length indices # s2 # s3 # rest,
                    data = concat (map (\<lambda>t. concat (map (band_block a t) indices)) [0..<s0])\<rparr>
          else Inl IndexError
      | _ \<Rightarrow> Inl IndexError)"

text \<open>\<open>np.concatenate((a, b))\<close> along axis 0.\<close>

definition concatenate :: "'a ndarray \<Rightarrow> 'a ndarray \<Rightarrow> error + 'a ndarray" where
  "concatenate a b =
     (case shape a of
        [] \<Rightarrow> Inl (ValueError ''zero-dimensional arrays cannot be concatenated'')
      | m # ra \<Rightarrow>
         (case shape b of
            [] \<Rightarrow> Inl (ValueError ''zero-dimensional arrays cannot be concatenated'')
          | n # rb \<Rightarrow>
             if ra = rb then Inr \<lparr>shape = (m + n) # ra, data = data a @ data b\<rparr>
             else Inl (ValueError ''all the input array dimensions except for the concatenation axis must match exactly'')))"

text \<open>\<open>np.squeeze(y, axis=0)\<close>.\<close>

definition squeeze :: "'a ndarray \<Rightarrow> error + 'a ndarray" where
  "squeeze y =
     (case shape y of
        [] \<Rightarrow> Inl (ValueError ''axis 0 is out of bounds for array of dimension 0'')
      | n # rest \<Rightarrow>
          if n = 1 then Inr \<lparr>shape = rest, data = data y\<rparr>
          else Inl (ValueError ''cannot select an axis to squeeze out which has size not equal to one''))"

text \<open>\<open>y - c\<close> for a scalar \<open>c\<close>, element by element.\<close>

definition sub_scalar :: "('a::minus) ndarray \<Rightarrow> 'a \<Rightarrow> 'a ndarray" where
  "sub_scalar y c = \<lparr>shape = shape y, data = map (\<lambda>v. v - c) (data y)\<rparr>"

text \<open>
  The accumulator \<open>X\<close> of \<open>__getitem__\<close> starts as the empty Python list and becomes an
  array at the first source that is not the ground truth.
\<close>

datatype 'a xvalue = PyList | Array "'a ndarray"

definition py_len :: "'a xvalue \<Rightarrow> error + nat" where
  "py_len X =
     (case X of
        PyList \<Rightarrow> Inr 0
      | Array a \<Rightarrow> (case shape a of [] \<Rightarrow> Inl TypeError | n # _ \<Rightarrow> Inr n))"

section \<open>Subtiles, metadata and the object store\<close>

text \<open>
  Modelled from the spec: the classes \<open>Subtile\<close> and \<open>TileMetadata\<close> of
  \<open>src/preprocessing/subtile_esd_hw02.py\<close>, which the dataset imports. A subtile
  holds a dictionary from source name to a 4-dimensional array and a metadata record;
  the metadata holds, for each source name, an object with the ordered list of the band names.
  Python dictionaries keep insertion order and are association lists here.

  The per-source metadata objects are mutable and shared by reference, so they live in
  a store and the metadata's dictionary holds their addresses. The
  metadata record and its dictionary are values: the code never mutates a dictionary
  that two records share.
\<close>

record SatelliteMetadata =
  bands :: "string list"

type_synonym heap = "SatelliteMetadata list"

record TileMetadata =
  satellites :: "(string \<times> nat) list"

record 'a Subtile =
  satellite_stack :: "(string \<times> 'a ndarray) list"
  tile_metadata :: TileMetadata

text \<open>
  \<open>deepcopy(subtile.tile_metadata)\<close>: every per-source object is copied to a fresh
  address; an object reached twice is copied once (the memo of \<open>deepcopy\<close>).
\<close>

fun deepcopy_satellites ::
  "(string \<times> nat) list \<Rightarrow> (nat \<times> nat) list \<Rightarrow> heap \<Rightarrow> error + ((string \<times> nat) list \<times> heap)" where
  "deepcopy_satellites [] memo h = Inr ([], h)"
| "deepcopy_satellites ((k, r) # rest) memo h =
     (case map_of memo r of
        Some r' \<Rightarrow>
          (case deepcopy_satellites rest memo h of
             Inl e \<Rightarrow> Inl e
           | Inr (rs, h') \<Rightarrow> Inr ((k, r') # rs, h'))
      | None \<Rightarrow>
          if r < length h
          then (case deepcopy_satellites rest ((r, length h) # memo) (h @ [h ! r]) of
                  Inl e \<Rightarrow> Inl e
                | Inr (rs, h') \<Rightarrow> Inr ((k, length h) # rs, h'))
          else Inl NoSuchObject)"

definition deepcopy :: "TileMetadata \<Rightarrow> heap \<Rightarrow> error + (TileMetadata \<times> heap)" where
  "deepcopy md h =
     (case deepcopy_satellites (satellites md) [] h of
        Inl e \<Rightarrow> Inl e
      | Inr (rs, h') \<Rightarrow> Inr (\<lparr>satellites = rs\<rparr>, h'))"

section \<open>Band selection\<close>

text \<open>\<open>__select_indices\<close>: the positions, in \<open>bands\<close>, of the values that occur in \<open>selected\<close>.\<close>

definition select_indices :: "string list \<Rightarrow> string list \<Rightarrow> nat list" where
  "select_indices bs selected =
     map fst (filter (\<lambda>(index, v). v \<in> set selected) (enumerate 0 bs))"

text \<open>
  One iteration of the loop of \<open>__select_bands\<close> (lines 127 to 136), on the state
  (selected stack, new metadata, store). The store is returned also when the iteration
  raises: line 131 has written by then, unless the key is missing from the metadata.
\<close>

definition select_key ::
  "(string \<times> string list) list \<Rightarrow> 'a Subtile \<Rightarrow> string \<Rightarrow>
   (string \<times> 'a ndarray) list \<times> TileMetadata \<times> heap \<Rightarrow>
   (error + ((string \<times> 'a ndarray) list \<times> TileMetadata)) \<times> heap" where
  "select_key cfg subtile key st =
     (case st of (selected_satellite_stack, new_metadata, h) \<Rightarrow>
       (case map_of (satellites (tile_metadata subtile)) key of
          None \<Rightarrow> (Inl (KeyError key), h)
        | Some r \<Rightarrow>
           if r < length h then
             (case map_of cfg key of
                None \<Rightarrow> (Inl (KeyError key), h)
              | Some selected \<Rightarrow>
                 let satellite_bands = bands (h ! r);
                     indices = select_indices satellite_bands selected;
                     new_metadata' = new_metadata\<lparr>satellites := AList.update key r (satellites new_metadata)\<rparr>;
                     h' = h[r := (h ! r)\<lparr>bands := selected\<rparr>]
                 in (case map_of (satellite_stack subtile) key of
                       None \<Rightarrow> (Inl (KeyError key), h')
                     | Some arr \<Rightarrow>
                        (case take_bands arr indices of
                           Inl e \<Rightarrow> (Inl e, h')
                         | Inr sliced \<Rightarrow>
                            (Inr (AList.update key sliced selected_satellite_stack, new_metadata'), h'))))
           else (Inl NoSuchObject, h)))"

fun select_loop ::
  "(string \<times> string list) list \<Rightarrow> 'a Subtile \<Rightarrow> string list \<Rightarrow>
   (string \<times> 'a ndarray) list \<times> TileMetadata \<times> heap \<Rightarrow>
   (error + ((string \<times> 'a ndarray) list \<times> TileMetadata)) \<times> heap" where
  "select_loop cfg subtile [] st =
     (case st of (stk, md, h) \<Rightarrow> (Inr (stk, md), h))"
| "select_loop cfg subtile (key # keys) st =
     (case select_key cfg subtile key st of
        (Inl e, h') \<Rightarrow> (Inl e, h')
      | (Inr (stk, md), h') \<Rightarrow> select_loop cfg subtile keys (stk, md, h'))"

text \<open>\<open>__select_bands\<close>, with the band-selection configuration of the dataset.\<close>

definition select_bands ::
  "(string \<times> string list) list option \<Rightarrow> 'a Subtile \<Rightarrow> heap \<Rightarrow>
   (error + ((string \<times> 'a ndarray) list \<times> TileMetadata)) \<times> heap" where
  "select_bands selected_bands subtile h =
     (case deepcopy (tile_metadata subtile) h of
        Inl e \<Rightarrow> (Inl e, h)
      | Inr (new_metadata, h1) \<Rightarrow>
         (case selected_bands of
            Some cfg \<Rightarrow>
              select_loop cfg subtile (map fst cfg) ([], new_metadata\<lparr>satellites := []\<rparr>, h1)
          | None \<Rightarrow> (Inr (satellite_stack subtile, new_metadata), h1)))"

section \<open>The positional accessor\<close>

text \<open>
  The dataset object. A tile path is represented by its file name: every path comes
  from one non-recursive glob of \<open>root_dir\<close>, and \<open>find_subtile\<close> reads the name only.
\<close>

record 'a DSE =
  root_dir :: string
  selected_bands :: "(string \<times> string list) list option"
  transform :: "('a xvalue \<times> 'a ndarray \<Rightarrow> error + ('a xvalue \<times> 'a ndarray)) option"
  tiles :: "string list"

text \<open>\<open>__len__\<close>.\<close>

definition len :: "'a DSE \<Rightarrow> nat" where
  "len self = length (tiles self)"

text \<open>\<open>self.tiles[idx]\<close>: a negative index counts from the end of the list.\<close>

definition tiles_getitem :: "string list \<Rightarrow> int \<Rightarrow> error + string" where
  "tiles_getitem ts idx =
     (if 0 \<le> idx \<and> idx < int (length ts) then Inr (ts ! nat idx)
      else if idx < 0 \<and> - int (length ts) \<le> idx then Inr (ts ! nat (int (length ts) + idx))
      else Inl IndexError)"

text \<open>The loop of lines 175 to 181 over the items of the selected stack.\<close>

fun stack_sources :: "'a xvalue \<Rightarrow> (string \<times> 'a ndarray) list \<Rightarrow> error + 'a xvalue" where
  "stack_sources X [] = Inr X"
| "stack_sources X ((satellite_type, stack) # rest) =
     (if satellite_type \<noteq> ''gt'' then
        (case py_len X of
           Inl e \<Rightarrow> Inl e
         | Inr n \<Rightarrow>
            if n = 0 then
              (case aggregate_time stack of
                 Inl e \<Rightarrow> Inl e
               | Inr a \<Rightarrow> stack_sources (Array a) rest)
            else
              (case aggregate_time stack of
                 Inl e \<Rightarrow> Inl e
               | Inr a \<Rightarrow>
                  (case X of
                     PyList \<Rightarrow> Inl (ValueError ''all the input arrays must have same number of dimensions'')
                   | Array x \<Rightarrow>
                      (case concatenate x a of
                         Inl e \<Rightarrow> Inl e
                       | Inr c \<Rightarrow> stack_sources (Array c) rest))))
      else stack_sources X rest)"

text \<open>
  \<open>__getitem__\<close> from line 166 on, for a loaded subtile. The result is the sample
  (X, y - 1, metadata) or the exception, with the store the call leaves behind.
\<close>

definition assemble ::
  "('a::{minus,one}) DSE \<Rightarrow> 'a Subtile \<Rightarrow> heap \<Rightarrow>
   (error + ('a xvalue \<times> 'a ndarray \<times> TileMetadata)) \<times> heap" where
  "assemble self subtile h =
     (case select_bands (selected_bands self) subtile h of
        (Inl e, h') \<Rightarrow> (Inl e, h')
      | (Inr (stk, metadata), h') \<Rightarrow>
         (case map_of (satellite_stack subtile) ''gt'' of
            None \<Rightarrow> (Inl (KeyError ''gt''), h')
          | Some y \<Rightarrow>
             (case stack_sources PyList stk of
                Inl e \<Rightarrow> (Inl e, h')
              | Inr X \<Rightarrow>
                 (case squeeze y of
                    Inl e \<Rightarrow> (Inl e, h')
                  | Inr y1 \<Rightarrow>
                     (case transform self of
                        None \<Rightarrow> (Inr (X, sub_scalar y1 1, metadata), h')
                      | Some f \<Rightarrow>
                         (case f (X, y1) of
                            Inl e \<Rightarrow> (Inl e, h')
                          | Inr (X2, y2) \<Rightarrow> (Inr (X2, sub_scalar y2 1, metadata), h')))))))"

text \<open>
  \<open>__getitem__\<close>. The loader \<open>Subtile().load\<close> is a parameter: it reads a file and
  returns a subtile whose metadata objects it has put in the store, or raises.
\<close>

definition getitem ::
  "('a::{minus,one}) DSE \<Rightarrow> (string \<Rightarrow> heap \<Rightarrow> (error + 'a Subtile) \<times> heap) \<Rightarrow> int \<Rightarrow> heap \<Rightarrow>
   (error + ('a xvalue \<times> 'a ndarray \<times> TileMetadata)) \<times> heap" where
  "getitem self load idx h =
     (case tiles_getitem (tiles self) idx of
        Inl e \<Rightarrow> (Inl e, h)
      | Inr path \<Rightarrow>
         (case load path h of
            (Inl e, h1) \<Rightarrow> (Inl e, h1)
          | (Inr subtile, h1) \<Rightarrow> assemble self subtile h1))"

section \<open>Lookup by identifier\<close>

text \<open>
  The pattern of \<open>find_subtile\<close> uses literal characters, the dot and capture groups
  \<open>(\d+)\<close>. Names are strings of 8-bit characters, among which \<open>\d\<close> matches the
  ten ASCII digits only; the dot matches every character but the newline.
\<close>

datatype rx_item = Lit char | AnyChar | Digits

definition is_digit :: "char \<Rightarrow> bool" where
  "is_digit c = (c \<in> set ''0123456789'')"

definition digit_value :: "char \<Rightarrow> nat" where
  "digit_value c = length (takeWhile (\<lambda>d. d \<noteq> c) ''0123456789'')"

definition digit_char :: "nat \<Rightarrow> char" where
  "digit_char d = ''0123456789'' ! d"

text \<open>
  \<open>int(s)\<close> on a string of decimal digits (a file name is far shorter than the 4300
  digits from which \<open>int\<close> refuses a string).
\<close>

definition int_of_digits :: "string \<Rightarrow> int" where
  "int_of_digits s = foldl (\<lambda>acc c. 10 * acc + int (digit_value c)) 0 s"

text \<open>The decimal rendering of an integer in an f-string.\<close>

fun str_nat :: "nat \<Rightarrow> string" where
  "str_nat n = (if n < 10 then [digit_char n] else str_nat (n div 10) @ [digit_char (n mod 10)])"

declare str_nat.simps [simp del]

definition str_int :: "int \<Rightarrow> string" where
  "str_int v = (if v < 0 then CHR ''-'' # str_nat (nat (- v)) else str_nat (nat v))"

text \<open>
  A backtracking matcher, as \<open>re\<close> is: a group \<open>(\d+)\<close> first takes the longest run of
  digits and gives digits back one at a time, down to one, until the rest of the pattern
  matches. The result is the list of the captured groups.
\<close>

fun backtrack :: "(string \<Rightarrow> string list option) \<Rightarrow> string \<Rightarrow> nat \<Rightarrow> string list option" where
  "backtrack m s 0 = None"
| "backtrack m s (Suc k) =
     (case m (drop (Suc k) s) of
        Some gs \<Rightarrow> Some (take (Suc k) s # gs)
      | None \<Rightarrow> backtrack m s k)"

primrec match_here :: "rx_item list \<Rightarrow> string \<Rightarrow> string list option" where
  "match_here [] s = Some []"
| "match_here (it # p) s =
     (case it of
        Lit c \<Rightarrow> (case s of [] \<Rightarrow> None | x # xs \<Rightarrow> if x = c then match_here p xs else None)
      | AnyChar \<Rightarrow> (case s of [] \<Rightarrow> None | x # xs \<Rightarrow> if x \<noteq> CHR 0x0A then match_here p xs else None)
      | Digits \<Rightarrow> backtrack (match_here p) s (length (takeWhile is_digit s)))"

text \<open>\<open>pattern.search(name)\<close>: the match at the leftmost position that has one.\<close>

fun search :: "rx_item list \<Rightarrow> string \<Rightarrow> string list option" where
  "search p [] = match_here p []"
| "search p (c # cs) =
     (case match_here p (c # cs) of
        Some gs \<Rightarrow> Some gs
      | None \<Rightarrow> search p cs)"

text \<open>\<open>re.compile('Tile(\d+)_(\d+)_(\d+).npz')\<close>.\<close>

definition pattern :: "rx_item list" where
  "pattern = map Lit ''Tile'' @ [Digits, Lit CHR ''_'', Digits, Lit CHR ''_'', Digits, AnyChar]
               @ map Lit ''npz''"

text \<open>The file name \<open>Tile{tile_id}_{i}_{j}.npz\<close>, and the message of the ValueError of line 224.\<close>

definition tile_file_name :: "int \<Rightarrow> int \<Rightarrow> int \<Rightarrow> string" where
  "tile_file_name tile_id i j =
     ''Tile'' @ str_int tile_id @ ''_'' @ str_int i @ ''_'' @ str_int j @ ''.npz''"

definition not_found_message :: "int \<Rightarrow> int \<Rightarrow> int \<Rightarrow> string" where
  "not_found_message tile_id i j =
     ''Could not find '' @ tile_file_name tile_id i j @ '' in the dataset''"

text \<open>
  The loop of \<open>find_subtile\<close> from position \<open>k\<close> of the tile list. A name the pattern
  does not match gives \<open>result = None\<close>, and \<open>result.group(1)\<close> raises AttributeError.
\<close>

fun find_loop ::
  "('a::{minus,one}) DSE \<Rightarrow> (string \<Rightarrow> heap \<Rightarrow> (error + 'a Subtile) \<times> heap) \<Rightarrow>
   int \<Rightarrow> int \<Rightarrow> int \<Rightarrow> nat \<Rightarrow> string list \<Rightarrow> heap \<Rightarrow>
   (error + ('a xvalue \<times> 'a ndarray \<times> TileMetadata)) \<times> heap" where
  "find_loop self load tile_id i j k [] h =
     (Inl (ValueError (not_found_message tile_id i j)), h)"
| "find_loop self load tile_id i j k (name # rest) h =
     (case search pattern name of
        None \<Rightarrow> (Inl AttributeError, h)
      | Some groups \<Rightarrow>
         (case groups of
            [id_value, x, y] \<Rightarrow>
              if tile_id = int_of_digits id_value \<and> i = int_of_digits x \<and> j = int_of_digits y
              then getitem self load (int k) h
              else find_loop self load tile_id i j (Suc k) rest h
          | _ \<Rightarrow> (Inl IndexError, h)))"

definition find_subtile ::
  "('a::{minus,one}) DSE \<Rightarrow> (string \<Rightarrow> heap \<Rightarrow> (error + 'a Subtile) \<times> heap) \<Rightarrow>
   int \<Rightarrow> int \<Rightarrow> int \<Rightarrow> heap \<Rightarrow>
   (error + ('a xvalue \<times> 'a ndarray \<times> TileMetadata)) \<times> heap" where
  "find_subtile self load tile_id i j h = find_loop self load tile_id i j 0 (tiles self) h"

text \<open>
  The triple that \<open>find_subtile\<close> reads from a file name: the three groups of the
  match, converted by \<open>int\<close>; none if the pattern does not match the name.
\<close>

definition parsed_triple :: "string \<Rightarrow> (int \<times> int \<times> int) option" where
  "parsed_triple name =
     (case search pattern name of
        None \<Rightarrow> None
      | Some groups \<Rightarrow>
         (case groups of
            [id_value, x, y] \<Rightarrow> Some (int_of_digits id_value, int_of_digits x, int_of_digits y)
          | _ \<Rightarrow> None))"

section \<open>Measures and example data\<close>

text \<open>
  The sum, over the sources of a stack other than the ground truth, of the time dimension
  times the band dimension.
\<close>

definition time_bands :: "(string \<times> 'a ndarray) list \<Rightarrow> nat" where
  "time_bands stk =
     sum_list (map (\<lambda>(k, a). shape a ! 0 * shape a ! 1) (filter (\<lambda>(k, a). k \<noteq> ''gt'') stk))"

text \<open>
  The scenario of the specification: one file \<open>Tile1_0_0.npz\<close> with a ground truth of
  shape (1,1,4,4) and values in {1,2,3}, and one other source of shape (2,3,4,4). The
  loader puts the two metadata objects of the subtile at the end of the store.
\<close>

definition scenario_gt :: "int ndarray" where
  "scenario_gt =
     \<lparr>shape = [1, 1, 4, 4], data = [1, 2, 3, 1, 2, 3, 1, 2, 3, 1, 2, 3, 1, 2, 3, 1]\<rparr>"

definition scenario_source :: "int ndarray" where
  "scenario_source = \<lparr>shape = [2, 3, 4, 4], data = map int [0..<96]\<rparr>"

definition scenario_subtile :: "nat \<Rightarrow> int Subtile" where
  "scenario_subtile base =
     \<lparr>satellite_stack = [(''sentinel2'', scenario_source), (''gt'', scenario_gt)],
      tile_metadata = \<lparr>satellites = [(''sentinel2'', base), (''gt'', Suc base)]\<rparr>\<rparr>"

definition scenario_load :: "string \<Rightarrow> heap \<Rightarrow> (error + int Subtile) \<times> heap" where
  "scenario_load path h =
     (if path = ''Tile1_0_0.npz''
      then (Inr (scenario_subtile (length h)),
            h @ [\<lparr>bands = [''04'', ''03'', ''02'']\<rparr>, \<lparr>bands = [''0'']\<rparr>])
      else (Inl LoadError, h))"

definition scenario_dse :: "int DSE" where
  "scenario_dse = \<lparr>root_dir = ''data'', selected_bands = None, transform = None,
                    tiles = [''Tile1_0_0.npz'']\<rparr>"

text \<open>
  A small subtile for band selection: a source with the bands VV and VH, one value for
  each, and a ground truth with one value. The loader returns it for every path.
\<close>

definition example_source :: "int ndarray" where
  "example_source = \<lparr>shape = [1, 2, 1, 1], data = [10, 20]\<rparr>"

definition example_gt :: "int ndarray" where
  "example_gt = \<lparr>shape = [1, 1, 1, 1], data = [3]\<rparr>"

definition example_subtile :: "nat \<Rightarrow> int Subtile" where
  "example_subtile base =
     \<lparr>satellite_stack = [(''sentinel1'', example_source), (''gt'', example_gt)],
      tile_metadata = \<lparr>satellites = [(''sentinel1'', base), (''gt'', Suc base)]\<rparr>\<rparr>"

definition example_objects :: heap where
  "example_objects = [\<lparr>bands = [''VV'', ''VH'']\<rparr>, \<lparr>bands = [''0'']\<rparr>]"

definition example_load :: "string \<Rightarrow> heap \<Rightarrow> (error + int Subtile) \<times> heap" where
  "example_load path h = (Inr (example_subtile (length h)), h @ example_objects)"

text \<open>A loader whose ground truth tells the files apart: its value is the length of the path.\<close>

definition named_load :: "string \<Rightarrow> heap \<Rightarrow> (error + int Subtile) \<times> heap" where
  "named_load path h =
     (Inr \<lparr>satellite_stack =
             [(''sentinel1'', example_source),
              (''gt'', \<lparr>shape = [1, 1, 1, 1], data = [int (length path)]\<rparr>)],
           tile_metadata = \<lparr>satellites = [(''sentinel1'', length h), (''gt'', Suc (length h))]\<rparr>\<rparr>,
      h @ example_objects)"

definition example_dse :: "(string \<times> string list) list option \<Rightarrow> string list \<Rightarrow> int DSE" where
  "example_dse cfg ts = \<lparr>root_dir = ''data'', selected_bands = cfg, transform = None, tiles = ts\<rparr>"

section \<open>Floating-point elements\<close>

text \<open>
  The element type of a float64 array: IEEE 754 binary64 numbers with the default rounding
  (to nearest, ties to even). \<open>F64 m e\<close> is the number \<open>m * 2 ^ e\<close>, with zero as
  \<open>F64 0 0\<close> and every other number with a mantissa of exactly 53 bits. The exponent
  is not bounded: overflow, subnormal numbers, infinities and NaN are left out.
\<close>

datatype f64 = F64 int int

fun bit_length :: "nat \<Rightarrow> nat" where
  "bit_length n = (if n = 0 then 0 else Suc (bit_length (n div 2)))"

declare bit_length.simps [simp del]

text \<open>The binary64 number nearest to \<open>n * 2 ^ k\<close>.\<close>

definition round_f64 :: "int \<Rightarrow> int \<Rightarrow> f64" where
  "round_f64 n k =
     (if n = 0 then F64 0 0
      else
        let L = int (bit_length (nat \<bar>n\<bar>)) in
        if L \<le> 53 then F64 (n * 2 ^ nat (53 - L)) (k - (53 - L))
        else
          let d = nat (L - 53);
              q = \<bar>n\<bar> div 2 ^ d;
              r = \<bar>n\<bar> mod 2 ^ d;
              half = 2 ^ (d - 1);
              q' = (if r < half then q else if half < r then q + 1
                    else if even q then q else q + 1)
          in if q' = 2 ^ 53 then F64 (sgn n * 2 ^ 52) (k + int d + 1)
             else F64 (sgn n * q') (k + int d))"

text \<open>Sum and difference: the exact result, rounded once.\<close>

instantiation f64 :: "{minus, plus, one}"
begin

definition one_f64 :: f64 where
  "one_f64 = F64 (2 ^ 52) (- 52)"

fun plus_f64 :: "f64 \<Rightarrow> f64 \<Rightarrow> f64" where
  "plus_f64 (F64 m1 e1) (F64 m2 e2) =
     (let e = min e1 e2 in round_f64 (m1 * 2 ^ nat (e1 - e) + m2 * 2 ^ nat (e2 - e)) e)"

fun minus_f64 :: "f64 \<Rightarrow> f64 \<Rightarrow> f64" where
  "minus_f64 (F64 m1 e1) (F64 m2 e2) =
     (let e = min e1 e2 in round_f64 (m1 * 2 ^ nat (e1 - e) - m2 * 2 ^ nat (e2 - e)) e)"

instance ..

end

text \<open>
  A subtile of float64 arrays whose ground truth holds the value 0.1, that is
  \<open>7205759403792794 * 2 ^ -56\<close>, and a dataset with that one file.
\<close>

definition float_gt :: "f64 ndarray" where
  "float_gt = \<lparr>shape = [1, 1, 1, 1], data = [F64 7205759403792794 (- 56)]\<rparr>"

definition float_source :: "f64 ndarray" where
  "float_source = \<lparr>shape = [1, 2, 1, 1], data = [F64 0 0, F64 0 0]\<rparr>"

definition float_subtile :: "nat \<Rightarrow> f64 Subtile" where
  "float_subtile base =
     \<lparr>satellite_stack = [(''sentinel1'', float_source), (''gt'', float_gt)],
      tile_metadata = \<lparr>satellites = [(''sentinel1'', base), (''gt'', Suc base)]\<rparr>\<rparr>"

definition float_load :: "string \<Rightarrow> heap \<Rightarrow> (error + f64 Subtile) \<times> heap" where
  "float_load path h = (Inr (float_subtile (length h)), h @ example_objects)"

definition float_dse :: "f64 DSE" where
  "float_dse = \<lparr>root_dir = ''data'', selected_bands = None, transform = None,
                  tiles = [''Tile1_0_0.npz'']\<rparr>"

section \<open>Properties of time aggregation\<close>

lemma ravel_index_3: "ravel_index [n0, n1, n2] [i0, i1, i2] = (i0 * n1 + i1) * n2 + i2"
  by (simp add: ravel_index_def)

lemma ravel_index_4:
  "ravel_index [n0, n1, n2, n3] [i0, i1, i2, i3] = ((i0 * n1 + i1) * n2 + i2) * n3 + i3"
  by (simp add: ravel_index_def)

lemma stacked_position_bound:
  fixes t b :: nat
  assumes "t < T" "b < B"
  shows "t * B + b < T * B"
proof -
  have "t * B + b < t * B + B" using assms by simp
  also have "\<dots> = Suc t * B" by simp
  also have "\<dots> \<le> T * B" using assms by (intro mult_le_mono1) simp
  finally show ?thesis .
qed

text \<open>
  C9. On an array of shape (time, band, h, w), time aggregation returns an array of shape
  (time * band, h, w) whose element at (t * band + b, y, x) is the input's element at
  (t, b, y, x): the first two axes are collapsed in row-major order, time varying slower
  than band.
\<close>

theorem aggregate_time_row_major:
  assumes "shape img = [T, B, H, W]"
  shows "\<exists>out. aggregate_time img = Inr out \<and> shape out = [T * B, H, W] \<and>
           (\<forall>t b y x. t < T \<longrightarrow> b < B \<longrightarrow> y < H \<longrightarrow> x < W \<longrightarrow>
              item out [t * B + b, y, x] = item img [t, b, y, x] \<and>
              item out [t * B + b, y, x] = Inr (data img ! (((t * B + b) * H + y) * W + x)))"
proof -
  let ?out = "\<lparr>shape = [T * B, H, W], data = data img\<rparr>"
  have agg: "aggregate_time img = Inr ?out"
    using assms by (simp add: aggregate_time_def reshape_def)
  have elems: "item ?out [t * B + b, y, x] = item img [t, b, y, x] \<and>
        item ?out [t * B + b, y, x] = Inr (data img ! (((t * B + b) * H + y) * W + x))"
    if "t < T" "b < B" "y < H" "x < W" for t b y x
    using that assms stacked_position_bound [of t T b B]
    by (simp add: item_def ravel_index_3 ravel_index_4)
  show ?thesis
  proof (intro exI [of _ ?out] conjI allI impI)
    show "aggregate_time img = Inr ?out" by (rule agg)
    show "shape ?out = [T * B, H, W]" by simp
  qed (use elems in blast)+
qed

theorem aggregate_time_row_major_witness:
  "aggregate_time \<lparr>shape = [2, 2, 1, 1], data = [10, 11, 20, 21 :: int]\<rparr>
     = Inr \<lparr>shape = [4, 1, 1], data = [10, 11, 20, 21]\<rparr> \<and>
   item \<lparr>shape = [4, 1, 1], data = [10, 11, 20, 21 :: int]\<rparr> [1 * 2 + 0, 0, 0]
     = item \<lparr>shape = [2, 2, 1, 1], data = [10, 11, 20, 21]\<rparr> [1, 0, 0, 0] \<and>
   item \<lparr>shape = [4, 1, 1], data = [10, 11, 20, 21 :: int]\<rparr> [1 * 2 + 0, 0, 0] = Inr 20"
  using aggregate_time_row_major
    [of "\<lparr>shape = [2, 2, 1, 1], data = [10, 11, 20, 21 :: int]\<rparr>" 2 2 1 1]
  by (simp add: aggregate_time_def reshape_def item_def ravel_index_def)

section \<open>Properties of the label\<close>

lemma assemble_no_transform:
  assumes "assemble self subtile h = (Inr (X, y, md), h')" and "transform self = None"
  shows "\<exists>stk gt y1. select_bands (selected_bands self) subtile h = (Inr (stk, md), h') \<and>
           map_of (satellite_stack subtile) ''gt'' = Some gt \<and>
           stack_sources PyList stk = Inr X \<and> squeeze gt = Inr y1 \<and> y = sub_scalar y1 1"
  using assms
  by (auto simp: assemble_def split: prod.splits sum.splits option.splits)

lemma getitem_loaded:
  assumes "tiles_getitem (tiles self) idx = Inr path" and "load path h = (Inr subtile, h1)"
  shows "getitem self load idx h = assemble self subtile h1"
  using assms by (simp add: getitem_def)

lemma squeeze_Inr:
  assumes "squeeze g = Inr y1"
  shows "shape g = 1 # shape y1 \<and> data y1 = data g"
  using assms by (auto simp: squeeze_def split: list.splits if_splits)

lemma scenario_index: "tiles_getitem (tiles scenario_dse) 0 = Inr ''Tile1_0_0.npz''"
  by (simp add: scenario_dse_def tiles_getitem_def)

lemma scenario_loaded:
  "scenario_load ''Tile1_0_0.npz'' [] =
     (Inr (scenario_subtile 0), [\<lparr>bands = [''04'', ''03'', ''02'']\<rparr>, \<lparr>bands = [''0'']\<rparr>])"
  by (simp add: scenario_load_def)

lemma scenario_getitem:
  "getitem scenario_dse scenario_load 0 [] =
     (Inr (Array \<lparr>shape = [6, 4, 4], data = map int [0..<96]\<rparr>,
           \<lparr>shape = [1, 4, 4], data = [0, 1, 2, 0, 1, 2, 0, 1, 2, 0, 1, 2, 0, 1, 2, 0]\<rparr>,
           \<lparr>satellites = [(''sentinel2'', 2), (''gt'', 3)]\<rparr>),
      [\<lparr>bands = [''04'', ''03'', ''02'']\<rparr>, \<lparr>bands = [''0'']\<rparr>,
       \<lparr>bands = [''04'', ''03'', ''02'']\<rparr>, \<lparr>bands = [''0'']\<rparr>])"
  by (simp add: getitem_def scenario_dse_def scenario_load_def scenario_subtile_def
      tiles_getitem_def assemble_def select_bands_def deepcopy_def scenario_source_def
      scenario_gt_def py_len_def aggregate_time_def reshape_def squeeze_def sub_scalar_def)

lemma ravel_index_bound_aux:
  assumes "list_all2 (<) idx shp"
  shows "foldl (\<lambda>acc (n, i). acc * n + i) acc (zip shp idx) < Suc acc * prod_list shp"
  using assms
proof (induction idx shp arbitrary: acc rule: list_all2_induct)
  case Nil
  then show ?case by simp
next
  case (Cons i idx n shp)
  let ?f = "\<lambda>acc (n :: nat, i). acc * n + i"
  have "acc * n + i < Suc acc * n" using Cons.hyps(1) by simp
  then have "Suc (acc * n + i) \<le> Suc acc * n" by simp
  then have le: "Suc (acc * n + i) * prod_list shp \<le> Suc acc * n * prod_list shp"
    by (rule mult_le_mono1)
  have "foldl ?f acc (zip (n # shp) (i # idx)) = foldl ?f (acc * n + i) (zip shp idx)" by simp
  also have "\<dots> < Suc (acc * n + i) * prod_list shp" by (rule Cons.IH)
  also note le
  also have "Suc acc * n * prod_list shp = Suc acc * prod_list (n # shp)"
    by (simp add: algebra_simps)
  finally show ?case .
qed

lemma ravel_index_bound:
  assumes "list_all2 (<) idx shp"
  shows "ravel_index shp idx < prod_list shp"
  using ravel_index_bound_aux [OF assms, of 0] by (simp add: ravel_index_def)

lemma ravel_index_leading: "ravel_index (Suc 0 # shp) (0 # idx) = ravel_index shp idx"
  by (simp add: ravel_index_def)

lemma squeeze_item:
  fixes gt :: "('a::minus) ndarray"
  assumes sq: "squeeze gt = Inr y1" and wf: "wf_ndarray gt" and it: "item gt (0 # idx) = Inr v"
  shows "item (sub_scalar y1 c) idx = Inr (v - c)"
proof -
  from squeeze_Inr [OF sq] have sh: "shape gt = 1 # shape y1" and d: "data y1 = data gt" by simp_all
  from it sh have len: "length idx = length (shape y1)" and lt: "list_all2 (<) idx (shape y1)"
    and v: "v = data gt ! ravel_index (shape y1) idx"
    by (auto simp: item_def ravel_index_leading split: if_splits)
  from ravel_index_bound [OF lt] wf sh have "ravel_index (shape y1) idx < length (data gt)"
    by (simp add: wf_ndarray_def)
  with len lt v d show ?thesis by (simp add: item_def sub_scalar_def)
qed

lemma map_fixed_points: "map f xs = xs \<longleftrightarrow> (\<forall>x\<in>set xs. f x = x)"
  by (induction xs) auto

lemma float_getitem:
  "getitem float_dse float_load 0 [] =
     (Inr (Array \<lparr>shape = [2, 1, 1], data = [F64 0 0, F64 0 0]\<rparr>,
           \<lparr>shape = [1, 1, 1], data = [F64 (- 8106479329266893) (- 53)]\<rparr>,
           \<lparr>satellites = [(''sentinel1'', 2), (''gt'', 3)]\<rparr>),
      [\<lparr>bands = [''VV'', ''VH'']\<rparr>, \<lparr>bands = [''0'']\<rparr>, \<lparr>bands = [''VV'', ''VH'']\<rparr>,
       \<lparr>bands = [''0'']\<rparr>])"
  by (simp add: getitem_def float_dse_def float_load_def float_subtile_def float_gt_def
      float_source_def example_objects_def tiles_getitem_def assemble_def select_bands_def
      deepcopy_def py_len_def aggregate_time_def reshape_def squeeze_def sub_scalar_def
      one_f64_def round_f64_def bit_length.simps Let_def)

text \<open>
  On element types whose arithmetic is a ring (the unbounded integers, machine integers
  that wrap around), adding 1 to the label always gives the ground-truth values back.
\<close>

lemma label_shift_exact_in_rings:
  fixes self :: "('a::ring_1) DSE"
  assumes "transform self = None"
    and "tiles_getitem (tiles self) idx = Inr path"
    and "load path h = (Inr subtile, h1)"
    and "getitem self load idx h = (Inr (X, y, md), h')"
    and "map_of (satellite_stack subtile) ''gt'' = Some gt"
  shows "map (\<lambda>v. v + 1) (data y) = data gt"
proof -
  from assms have "assemble self subtile h1 = (Inr (X, y, md), h')"
    by (simp add: getitem_loaded)
  from assemble_no_transform [OF this assms(1)] assms(5)
  obtain y1 where sq: "squeeze gt = Inr y1" and y: "y = sub_scalar y1 1"
    by auto
  from squeeze_Inr [OF sq] y show ?thesis
    by (simp add: sub_scalar_def comp_def)
qed

text \<open>
  C6, as the specification states it, fails on a float64 ground truth: for the value 0.1
  the label holds the rounded difference \<open>-8106479329266893 * 2 ^ -53\<close>, and adding 1 to
  it gives \<open>7205759403792792 * 2 ^ -56\<close> (printed 0.09999999999999998), not 0.1.
\<close>

theorem float_round_trip_counterexample:
  "getitem float_dse float_load 0 [] =
     (Inr (Array \<lparr>shape = [2, 1, 1], data = [F64 0 0, F64 0 0]\<rparr>,
           \<lparr>shape = [1, 1, 1], data = [F64 (- 8106479329266893) (- 53)]\<rparr>,
           \<lparr>satellites = [(''sentinel1'', 2), (''gt'', 3)]\<rparr>),
      [\<lparr>bands = [''VV'', ''VH'']\<rparr>, \<lparr>bands = [''0'']\<rparr>, \<lparr>bands = [''VV'', ''VH'']\<rparr>,
       \<lparr>bands = [''0'']\<rparr>]) \<and>
   data float_gt = [F64 7205759403792794 (- 56)] \<and>
   F64 (- 8106479329266893) (- 53) + 1 = F64 7205759403792792 (- 56) \<and>
   F64 7205759403792792 (- 56) \<noteq> F64 7205759403792794 (- 56)"
  using float_getitem
  by (simp add: float_gt_def one_f64_def round_f64_def bit_length.simps Let_def)

text \<open>
  C6, amended. With no transform configured, the label returned for a valid index holds
  the raw ground-truth values minus 1, computed in the element arithmetic of the array, in
  the same order and under the ground truth's shape without its leading axis: the label's
  element at a multi-index is the ground truth's element at that multi-index behind the
  time index 0, minus 1. Adding 1 to every value of the label gives the ground-truth
  values back exactly if and only if \<open>(v - 1) + 1 = v\<close> holds in that arithmetic for
  every ground-truth value \<open>v\<close>.
\<close>

theorem getitem_label_shift:
  fixes self :: "('a::{minus,plus,one}) DSE"
  assumes "transform self = None"
    and "tiles_getitem (tiles self) idx = Inr path"
    and "load path h = (Inr subtile, h1)"
    and "getitem self load idx h = (Inr (X, y, md), h')"
  shows "\<exists>gt. map_of (satellite_stack subtile) ''gt'' = Some gt \<and>
           shape gt = 1 # shape y \<and>
           data y = map (\<lambda>v. v - 1) (data gt) \<and>
           (wf_ndarray gt \<longrightarrow>
              (\<forall>pos v. item gt (0 # pos) = Inr v \<longrightarrow> item y pos = Inr (v - 1))) \<and>
           (map (\<lambda>v. v + 1) (data y) = data gt \<longleftrightarrow> (\<forall>v\<in>set (data gt). v - 1 + 1 = v))"
proof -
  from assms have "assemble self subtile h1 = (Inr (X, y, md), h')"
    by (simp add: getitem_loaded)
  from assemble_no_transform [OF this assms(1)]
  obtain gt y1 where gt: "map_of (satellite_stack subtile) ''gt'' = Some gt"
    and sq: "squeeze gt = Inr y1" and y: "y = sub_scalar y1 1"
    by blast
  from squeeze_Inr [OF sq] y
  have sh: "shape gt = 1 # shape y" and d: "data y = map (\<lambda>v. v - 1) (data gt)"
    by (simp_all add: sub_scalar_def)
  have restore: "map (\<lambda>v. v + 1) (data y) = data gt \<longleftrightarrow> (\<forall>v\<in>set (data gt). v - 1 + 1 = v)"
    unfolding d using map_fixed_points [of "\<lambda>v. v - 1 + 1" "data gt"] by (simp add: comp_def)
  have elems: "wf_ndarray gt \<longrightarrow>
      (\<forall>pos v. item gt (0 # pos) = Inr v \<longrightarrow> item y pos = Inr (v - 1))"
    unfolding y using squeeze_item [OF sq] by blast
  from gt sh d restore elems show ?thesis by blast
qed

theorem getitem_label_shift_witness:
  "map (\<lambda>v. v + 1) [0, 1, 2, 0, 1, 2, 0, 1, 2, 0, 1, 2, 0, 1, 2, 0 :: int] = data scenario_gt \<and>
   item scenario_gt [0, 0, 1, 2] = Inr 1 \<and>
   item \<lparr>shape = [1, 4, 4], data = [0, 1, 2, 0, 1, 2, 0, 1, 2, 0, 1, 2, 0, 1, 2, 0 :: int]\<rparr>
     [0, 1, 2] = Inr (1 - 1)"
proof -
  have t: "transform scenario_dse = None" by (simp add: scenario_dse_def)
  have g: "map_of (satellite_stack (scenario_subtile 0)) ''gt'' = Some scenario_gt"
    by (simp add: scenario_subtile_def)
  have w: "wf_ndarray scenario_gt" by (simp add: wf_ndarray_def scenario_gt_def)
  have i: "item scenario_gt [0, 0, 1, 2] = Inr 1"
    by (simp add: item_def scenario_gt_def ravel_index_def)
  have r: "\<forall>v\<in>set (data scenario_gt). v - 1 + 1 = v" by simp
  from getitem_label_shift [OF t scenario_index scenario_loaded scenario_getitem] g w i r
  show ?thesis by auto
qed

text \<open>
  C1, as the specification states it, fails on its own scenario: the ground truth of
  shape (1,1,4,4) yields a label of shape (1,4,4), not (4,4). \<open>np.squeeze(y, axis=0)\<close>
  removes the time axis only.
\<close>

theorem label_shape_counterexample:
  "getitem scenario_dse scenario_load 0 [] =
     (Inr (Array \<lparr>shape = [6, 4, 4], data = map int [0..<96]\<rparr>,
           \<lparr>shape = [1, 4, 4], data = [0, 1, 2, 0, 1, 2, 0, 1, 2, 0, 1, 2, 0, 1, 2, 0]\<rparr>,
           \<lparr>satellites = [(''sentinel2'', 2), (''gt'', 3)]\<rparr>),
      [\<lparr>bands = [''04'', ''03'', ''02'']\<rparr>, \<lparr>bands = [''0'']\<rparr>,
       \<lparr>bands = [''04'', ''03'', ''02'']\<rparr>, \<lparr>bands = [''0'']\<rparr>])
   \<and> [1, 4, 4] \<noteq> [4, 4 :: nat]"
  using scenario_getitem by simp

text \<open>
  C1, amended. With no transform configured, the label returned for a valid index whose
  ground truth has shape (1, band, height, width) has shape (band, height, width): the
  time axis is removed and the band axis is kept. A ground truth of shape (1,1,4,4)
  yields a label of shape (1,4,4).
\<close>

theorem getitem_label_shape:
  fixes self :: "('a::{minus,one}) DSE"
  assumes "transform self = None"
    and "tiles_getitem (tiles self) idx = Inr path"
    and "load path h = (Inr subtile, h1)"
    and "getitem self load idx h = (Inr (X, y, md), h')"
    and "map_of (satellite_stack subtile) ''gt'' = Some gt"
    and "shape gt = [1, B, H, W]"
  shows "shape y = [B, H, W]"
proof -
  from assms have "assemble self subtile h1 = (Inr (X, y, md), h')"
    by (simp add: getitem_loaded)
  from assemble_no_transform [OF this assms(1)] assms(5)
  obtain y1 where sq: "squeeze gt = Inr y1" and y: "y = sub_scalar y1 1"
    by auto
  from squeeze_Inr [OF sq] y assms(6) show ?thesis
    by (simp add: sub_scalar_def)
qed

theorem getitem_label_shape_witness:
  "shape \<lparr>shape = [1, 4, 4], data = [0, 1, 2, 0, 1, 2, 0, 1, 2, 0, 1, 2, 0, 1, 2, 0 :: int]\<rparr>
     = [1, 4, 4]"
proof -
  have t: "transform scenario_dse = None" by (simp add: scenario_dse_def)
  have g: "map_of (satellite_stack (scenario_subtile 0)) ''gt'' = Some scenario_gt"
    by (simp add: scenario_subtile_def)
  have s: "shape scenario_gt = [1, 1, 4, 4]" by (simp add: scenario_gt_def)
  from getitem_label_shape [OF t scenario_index scenario_loaded scenario_getitem g s]
  show ?thesis .
qed

section \<open>Properties of the input array\<close>

lemma aggregate_time_Inr:
  assumes "aggregate_time img = Inr a"
  shows "shape a = [shape img ! 0 * shape img ! 1, shape img ! 2, shape img ! 3] \<and>
         data a = data img"
  using assms
  by (auto simp: aggregate_time_def reshape_def split: list.splits if_splits)

lemma concatenate_Inr:
  assumes "concatenate x a = Inr c"
  shows "\<exists>m n r. shape x = m # r \<and> shape a = n # r \<and> shape c = (m + n) # r \<and>
           data c = data x @ data a"
  using assms
  by (auto simp: concatenate_def split: list.splits if_splits)

lemma stack_sources_len:
  assumes "stack_sources X0 stk = Inr X" and "py_len X0 = Inr n0"
  shows "py_len X = Inr (n0 + time_bands stk)"
  using assms
proof (induction stk arbitrary: X0 n0)
  case Nil
  then show ?case by (simp add: time_bands_def)
next
  case (Cons p stk)
  obtain k stack where p: "p = (k, stack)" by (cases p)
  show ?case
  proof (cases "k = ''gt''")
    case True
    with Cons p show ?thesis by (simp add: time_bands_def)
  next
    case False
    from Cons.prems p False obtain a where agg: "aggregate_time stack = Inr a"
      by (auto split: sum.splits if_splits)
    from aggregate_time_Inr [OF agg]
    have sa: "shape a = [shape stack ! 0 * shape stack ! 1, shape stack ! 2, shape stack ! 3]"
      by simp
    have tb: "time_bands (p # stk) = shape stack ! 0 * shape stack ! 1 + time_bands stk"
      using p False by (simp add: time_bands_def)
    show ?thesis
    proof (cases "n0 = 0")
      case True
      with Cons.prems p False agg have rest: "stack_sources (Array a) stk = Inr X" by simp
      have "py_len (Array a) = Inr (shape stack ! 0 * shape stack ! 1)"
        using sa by (simp add: py_len_def)
      from Cons.IH [OF rest this] True tb show ?thesis by simp
    next
      case nz: False
      with Cons.prems p False agg obtain x c where X0: "X0 = Array x"
        and cc: "concatenate x a = Inr c" and rest: "stack_sources (Array c) stk = Inr X"
        by (auto split: xvalue.splits sum.splits)
      from concatenate_Inr [OF cc] obtain m n r where
        "shape x = m # r" "shape a = n # r" "shape c = (m + n) # r" by blast
      with sa X0 Cons.prems(2)
      have "py_len (Array c) = Inr (n0 + shape stack ! 0 * shape stack ! 1)"
        by (simp add: py_len_def)
      from Cons.IH [OF rest this] tb show ?thesis by (simp add: add.assoc)
    qed
  qed
qed

text \<open>
  C5. With no transform configured, the length of the first axis of the input array
  returned for a valid index is the sum, over the sources other than the ground truth of
  the stack that band selection returns, of the time dimension times the band dimension.
\<close>

theorem getitem_input_length:
  fixes self :: "('a::{minus,one}) DSE"
  assumes "transform self = None"
    and "tiles_getitem (tiles self) idx = Inr path"
    and "load path h = (Inr subtile, h1)"
    and "getitem self load idx h = (Inr (X, y, md), h')"
  shows "\<exists>stk. select_bands (selected_bands self) subtile h1 = (Inr (stk, md), h') \<and>
           py_len X = Inr (time_bands stk)"
proof -
  from assms have "assemble self subtile h1 = (Inr (X, y, md), h')"
    by (simp add: getitem_loaded)
  from assemble_no_transform [OF this assms(1)]
  obtain stk where sel: "select_bands (selected_bands self) subtile h1 = (Inr (stk, md), h')"
    and st: "stack_sources PyList stk = Inr X"
    by blast
  have "py_len (PyList :: 'a xvalue) = Inr 0" by (simp add: py_len_def)
  from stack_sources_len [OF st this] sel show ?thesis by auto
qed

theorem getitem_input_length_witness:
  "py_len (Array \<lparr>shape = [6, 4, 4], data = map int [0..<96]\<rparr>)
     = Inr (time_bands [(''sentinel2'', scenario_source), (''gt'', scenario_gt)]) \<and>
   time_bands [(''sentinel2'', scenario_source), (''gt'', scenario_gt)] = 2 * 3"
proof -
  have t: "transform scenario_dse = None" by (simp add: scenario_dse_def)
  have "select_bands (selected_bands scenario_dse) (scenario_subtile 0)
          [\<lparr>bands = [''04'', ''03'', ''02'']\<rparr>, \<lparr>bands = [''0'']\<rparr>] =
        (Inr ([(''sentinel2'', scenario_source), (''gt'', scenario_gt)],
              \<lparr>satellites = [(''sentinel2'', 2), (''gt'', 3)]\<rparr>),
         [\<lparr>bands = [''04'', ''03'', ''02'']\<rparr>, \<lparr>bands = [''0'']\<rparr>,
          \<lparr>bands = [''04'', ''03'', ''02'']\<rparr>, \<lparr>bands = [''0'']\<rparr>])"
    by (simp add: select_bands_def scenario_dse_def scenario_subtile_def deepcopy_def)
  with getitem_input_length [OF t scenario_index scenario_loaded scenario_getitem]
  show ?thesis by (simp add: time_bands_def scenario_source_def)
qed

section \<open>Properties of band selection\<close>

lemmas example_defs = example_dse_def example_load_def example_subtile_def example_objects_def
  example_source_def example_gt_def

lemmas accessor_defs = getitem_def tiles_getitem_def assemble_def select_bands_def deepcopy_def
  select_key_def select_indices_def take_bands_def band_block_def py_len_def aggregate_time_def
  reshape_def concatenate_def squeeze_def sub_scalar_def

lemma select_indices_names:
  "map ((!) bs) (select_indices bs selected) = filter (\<lambda>b. b \<in> set selected) bs"
proof -
  let ?E = "enumerate 0 bs"
  let ?Q = "\<lambda>(index :: nat, v). v \<in> set selected"
  have "map ((!) bs) (select_indices bs selected) = map (\<lambda>p. bs ! fst p) (filter ?Q ?E)"
    by (simp add: select_indices_def comp_def)
  also have "\<dots> = map snd (filter ?Q ?E)"
    by (rule map_cong) (auto simp: in_set_enumerate_eq)
  also have "\<dots> = map snd (filter ((\<lambda>b. b \<in> set selected) \<circ> snd) ?E)"
    by (simp add: comp_def case_prod_unfold)
  also have "\<dots> = filter (\<lambda>b. b \<in> set selected) (map snd ?E)"
    by (simp only: filter_map)
  finally show ?thesis by simp
qed

lemma select_indices_bound: "list_all (\<lambda>i. i < length bs) (select_indices bs selected)"
  by (auto simp: select_indices_def list_all_iff in_set_enumerate_eq)

lemma select_indices_sorted: "sorted_wrt (<) (select_indices bs selected)"
proof -
  have "sorted_wrt (<) (map fst (enumerate 0 bs))" by simp
  then have "sorted_wrt (\<lambda>p q. fst p < fst q) (enumerate 0 bs)"
    by (simp only: sorted_wrt_map)
  then have "sorted_wrt (\<lambda>p q. fst p < fst q) (filter (\<lambda>(index, v). v \<in> set selected) (enumerate 0 bs))"
    by (rule sorted_wrt_filter)
  then show ?thesis by (simp add: select_indices_def sorted_wrt_map)
qed

lemma filter_subseq_distinct:
  assumes "subseq sel bs" and "distinct bs"
  shows "filter (\<lambda>b. b \<in> set sel) bs = sel"
  using assms
proof (induction rule: list_emb.induct)
  case (list_emb_Nil ys)
  then show ?case by simp
next
  case (list_emb_Cons xs ys y)
  then have "y \<notin> set xs" by (auto elim: list_emb_set)
  with list_emb_Cons show ?case by simp
next
  case (list_emb_Cons2 x y xs ys)
  then have "x \<notin> set ys" by simp
  then have "filter (\<lambda>b. b \<in> set (x # xs)) ys = filter (\<lambda>b. b \<in> set xs) ys"
    by (intro filter_cong) auto
  with list_emb_Cons2 show ?case by simp
qed

lemma block_of_concat:
  assumes "list_all (\<lambda>b. length b = m) bs" and "k < length bs"
  shows "take m (drop (k * m) (concat bs)) = bs ! k"
  using assms
proof (induction bs arbitrary: k)
  case Nil
  then show ?case by simp
next
  case (Cons b bs)
  show ?case
  proof (cases k)
    case 0
    with Cons.prems show ?thesis by simp
  next
    case (Suc j)
    with Cons.prems have "take m (drop (j * m) (concat bs)) = bs ! j"
      by (intro Cons.IH) simp_all
    with Suc Cons.prems show ?thesis by simp
  qed
qed

lemma length_concat_uniform:
  assumes "list_all (\<lambda>b. length b = m) bs"
  shows "length (concat bs) = length bs * m"
  using assms by (induction bs) simp_all

lemma nth_concat_uniform:
  assumes "list_all (\<lambda>b. length b = m) bs" and "t < length bs" and "k < m"
  shows "concat bs ! (t * m + k) = bs ! t ! k"
proof -
  have len: "length (concat bs) = length bs * m"
    using assms(1) by (rule length_concat_uniform)
  have "t * m + k < length bs * m"
    using assms(2,3) by (rule stacked_position_bound)
  have "t * m \<le> length bs * m" using assms(2) by (intro mult_le_mono1) simp
  with len have le: "t * m \<le> length (concat bs)" by simp
  have "bs ! t ! k = take m (drop (t * m) (concat bs)) ! k"
    using block_of_concat [OF assms(1,2)] by simp
  also have "\<dots> = drop (t * m) (concat bs) ! k"
    using assms(3) by simp
  also have "\<dots> = concat bs ! (t * m + k)"
    using le by simp
  finally show ?thesis by simp
qed

lemma concat_map_concat: "concat (map concat xss) = concat (concat xss)"
  by (induction xss) simp_all

lemma band_block_length:
  assumes "shape a = s0 # s1 # rest" and "wf_ndarray a" and "t < s0" and "b < s1"
  shows "length (band_block a t b) = prod_list rest"
proof -
  let ?inner = "prod_list rest"
  have "t * s1 + b < s0 * s1" using assms(3,4) by (rule stacked_position_bound)
  then have "Suc (t * s1 + b) \<le> s0 * s1" by simp
  then have "Suc (t * s1 + b) * ?inner \<le> s0 * s1 * ?inner" by (rule mult_le_mono1)
  moreover have "length (data a) = s0 * s1 * ?inner"
    using assms(1,2) by (simp add: wf_ndarray_def)
  ultimately have "(t * s1 + b) * ?inner + ?inner \<le> length (data a)" by simp
  then show ?thesis using assms(1) by (simp add: band_block_def Let_def)
qed

lemma take_bands_Inr:
  assumes "take_bands a indices = Inr sliced"
  shows "\<exists>s0 s1 s2 s3 rest. shape a = s0 # s1 # s2 # s3 # rest \<and>
           list_all (\<lambda>i. i < s1) indices \<and>
           shape sliced = s0 # length indices # s2 # s3 # rest \<and>
           data sliced = concat (map (\<lambda>t. concat (map (band_block a t) indices)) [0..<s0])"
  using assms
  by (auto simp: take_bands_def split: list.splits if_splits)

lemma take_bands_block:
  assumes tb: "take_bands a indices = Inr sliced" and wf: "wf_ndarray a"
    and t: "t < shape a ! 0" and k: "k < length indices"
  shows "band_block sliced t k = band_block a t (indices ! k)"
proof -
  from take_bands_Inr [OF tb] obtain s0 s1 s2 s3 rest where
    sa: "shape a = s0 # s1 # s2 # s3 # rest"
    and ok: "list_all (\<lambda>i. i < s1) indices"
    and ss: "shape sliced = s0 # length indices # s2 # s3 # rest"
    and ds: "data sliced = concat (map (\<lambda>t. concat (map (band_block a t) indices)) [0..<s0])"
    by blast
  let ?L = "length indices"
  let ?inner = "prod_list (s2 # s3 # rest)"
  let ?rows = "map (\<lambda>t. map (band_block a t) indices) [0..<s0]"
  from t sa have t0: "t < s0" by simp
  have rows: "list_all (\<lambda>r. length r = ?L) ?rows"
    by (simp add: list_all_iff)
  have blocks: "list_all (\<lambda>b. length b = ?inner) (concat ?rows)"
    using ok band_block_length [OF sa wf] by (auto simp: list_all_iff)
  have ds': "data sliced = concat (concat ?rows)"
    unfolding ds by (simp add: concat_map_concat [symmetric] comp_def)
  have len: "length (concat ?rows) = s0 * ?L"
    using length_concat_uniform [OF rows] by simp
  have pos: "t * ?L + k < length (concat ?rows)"
    unfolding len using t0 k by (rule stacked_position_bound)
  have "band_block sliced t k = take ?inner (drop ((t * ?L + k) * ?inner) (concat (concat ?rows)))"
    using ss ds' by (simp add: band_block_def Let_def)
  also have "\<dots> = concat ?rows ! (t * ?L + k)"
    using blocks pos by (rule block_of_concat)
  also have "\<dots> = ?rows ! t ! k"
    using rows _ k by (rule nth_concat_uniform) (use t0 in simp)
  also have "\<dots> = band_block a t (indices ! k)"
    using t0 k by simp
  finally show ?thesis .
qed

lemma select_key_Inr:
  assumes "select_key cfg subtile key (stk, md, h) = (Inr (stk', md'), h')"
  shows "\<exists>r selected arr sliced.
           map_of (satellites (tile_metadata subtile)) key = Some r \<and> r < length h \<and>
           map_of cfg key = Some selected \<and>
           map_of (satellite_stack subtile) key = Some arr \<and>
           take_bands arr (select_indices (bands (h ! r)) selected) = Inr sliced \<and>
           stk' = AList.update key sliced stk \<and>
           md' = md\<lparr>satellites := AList.update key r (satellites md)\<rparr> \<and>
           h' = h[r := (h ! r)\<lparr>bands := selected\<rparr>]"
  using assms
  by (auto simp: select_key_def Let_def split: option.splits if_splits sum.splits)

lemma select_loop_Cons_Inr:
  assumes "select_loop cfg subtile (key # keys) (stk, md, h) = (Inr (stk', md'), h')"
  shows "\<exists>stk1 md1 h1. select_key cfg subtile key (stk, md, h) = (Inr (stk1, md1), h1) \<and>
           select_loop cfg subtile keys (stk1, md1, h1) = (Inr (stk', md'), h')"
  using assms by (auto split: prod.splits sum.splits)

lemma select_loop_keys:
  assumes "select_loop cfg subtile keys (stk, md, h) = (Inr (stk', md'), h')"
  shows "set (map fst (satellites md')) = set (map fst (satellites md)) \<union> set keys \<and>
         set (map fst stk') = set (map fst stk) \<union> set keys \<and> length h' = length h"
  using assms
proof (induction keys arbitrary: stk md h)
  case Nil
  then show ?case by simp
next
  case (Cons key keys)
  from select_loop_Cons_Inr [OF Cons.prems] obtain stk1 md1 h1 where
    k: "select_key cfg subtile key (stk, md, h) = (Inr (stk1, md1), h1)"
    and l: "select_loop cfg subtile keys (stk1, md1, h1) = (Inr (stk', md'), h')"
    by blast
  from select_key_Inr [OF k] obtain r sliced selected where
    "stk1 = AList.update key sliced stk"
    "md1 = md\<lparr>satellites := AList.update key r (satellites md)\<rparr>"
    "h1 = h[r := (h ! r)\<lparr>bands := selected\<rparr>]"
    by blast
  with Cons.IH [OF l] show ?case
    by (auto simp: update_keys)
qed

lemma select_loop_frame:
  assumes "select_loop cfg subtile keys (stk, md, h) = (Inr (stk', md'), h')"
  shows "(k \<notin> set keys \<longrightarrow> map_of stk' k = map_of stk k \<and>
            map_of (satellites md') k = map_of (satellites md) k) \<and>
         (Some r \<notin> map_of (satellites (tile_metadata subtile)) ` set keys \<longrightarrow> h' ! r = h ! r)"
  using assms
proof (induction keys arbitrary: stk md h)
  case Nil
  then show ?case by simp
next
  case (Cons key keys)
  from select_loop_Cons_Inr [OF Cons.prems] obtain stk1 md1 h1 where
    k: "select_key cfg subtile key (stk, md, h) = (Inr (stk1, md1), h1)"
    and l: "select_loop cfg subtile keys (stk1, md1, h1) = (Inr (stk', md'), h')"
    by blast
  from select_key_Inr [OF k] obtain r0 sliced selected where
    r0: "map_of (satellites (tile_metadata subtile)) key = Some r0"
    and eqs: "stk1 = AList.update key sliced stk"
    "md1 = md\<lparr>satellites := AList.update key r0 (satellites md)\<rparr>"
    "h1 = h[r0 := (h ! r0)\<lparr>bands := selected\<rparr>]"
    by blast
  have "h1 ! r = h ! r" if "Some r \<notin> map_of (satellites (tile_metadata subtile)) ` set (key # keys)"
    using that r0 eqs(3) by (auto simp: image_iff)
  with Cons.IH [OF l] eqs show ?case
    by (auto simp: update_conv')
qed

lemma select_loop_key:
  assumes "select_loop cfg subtile keys (stk, md, h) = (Inr (stk', md'), h')"
    and "distinct keys"
    and "inj_on (map_of (satellites (tile_metadata subtile))) (set keys)"
    and "key \<in> set keys"
  shows "\<exists>r selected arr sliced.
           map_of (satellites (tile_metadata subtile)) key = Some r \<and> r < length h \<and>
           map_of cfg key = Some selected \<and>
           map_of (satellite_stack subtile) key = Some arr \<and>
           take_bands arr (select_indices (bands (h ! r)) selected) = Inr sliced \<and>
           map_of stk' key = Some sliced \<and>
           map_of (satellites md') key = Some r \<and>
           bands (h' ! r) = selected"
  using assms
proof (induction keys arbitrary: stk md h)
  case Nil
  then show ?case by simp
next
  case (Cons k0 keys)
  from select_loop_Cons_Inr [OF Cons.prems(1)] obtain stk1 md1 h1 where
    k: "select_key cfg subtile k0 (stk, md, h) = (Inr (stk1, md1), h1)"
    and l: "select_loop cfg subtile keys (stk1, md1, h1) = (Inr (stk', md'), h')"
    by blast
  from select_key_Inr [OF k] obtain r0 selected0 arr0 sliced0 where
    r0: "map_of (satellites (tile_metadata subtile)) k0 = Some r0" "r0 < length h"
    and c0: "map_of cfg k0 = Some selected0"
    and a0: "map_of (satellite_stack subtile) k0 = Some arr0"
    and t0: "take_bands arr0 (select_indices (bands (h ! r0)) selected0) = Inr sliced0"
    and eqs: "stk1 = AList.update k0 sliced0 stk"
    "md1 = md\<lparr>satellites := AList.update k0 r0 (satellites md)\<rparr>"
    "h1 = h[r0 := (h ! r0)\<lparr>bands := selected0\<rparr>]"
    by blast
  from Cons.prems have d: "k0 \<notin> set keys" "distinct keys"
    and inj: "inj_on (map_of (satellites (tile_metadata subtile))) (set keys)"
    by (auto simp: inj_on_def)
  show ?case
  proof (cases "key = k0")
    case True
    have "Some r0 \<notin> map_of (satellites (tile_metadata subtile)) ` set keys"
    proof
      assume "Some r0 \<in> map_of (satellites (tile_metadata subtile)) ` set keys"
      then obtain k' where "k' \<in> set keys" "map_of (satellites (tile_metadata subtile)) k' = Some r0"
        by auto
      with Cons.prems(3) r0 have "k' = k0" by (auto simp: inj_on_def)
      with \<open>k' \<in> set keys\<close> d show False by simp
    qed
    with select_loop_frame [OF l, of k0 r0] d
    have "map_of stk' k0 = map_of stk1 k0" "map_of (satellites md') k0 = map_of (satellites md1) k0"
      "h' ! r0 = h1 ! r0"
      by auto
    with True r0 c0 a0 t0 eqs show ?thesis
      by (simp add: update_conv')
  next
    case False
    with Cons.prems(4) have kin: "key \<in> set keys" by simp
    from Cons.IH [OF l d(2) inj kin] obtain r selected arr sliced where
      r: "map_of (satellites (tile_metadata subtile)) key = Some r" "r < length h1"
      and rest: "map_of cfg key = Some selected"
        "map_of (satellite_stack subtile) key = Some arr"
        "take_bands arr (select_indices (bands (h1 ! r)) selected) = Inr sliced"
        "map_of stk' key = Some sliced"
        "map_of (satellites md') key = Some r"
        "bands (h' ! r) = selected"
      by blast
    from Cons.prems(3) r(1) r0(1) False kin have "r \<noteq> r0"
      by (auto simp: inj_on_def)
    with eqs(3) have "h1 ! r = h ! r" by simp
    with r rest eqs(3) show ?thesis by simp
  qed
qed

lemma deepcopy_satellites_prefix:
  assumes "deepcopy_satellites sats memo h = Inr (rs, h')"
  shows "prefix h h'"
  using assms
proof (induction sats arbitrary: memo h rs)
  case Nil
  then show ?case by simp
next
  case (Cons p sats)
  obtain k r where p: "p = (k, r)" by (cases p)
  show ?case
  proof (cases "map_of memo r")
    case (Some r')
    with Cons.prems p obtain rs' where "deepcopy_satellites sats memo h = Inr (rs', h')"
      by (auto split: sum.splits)
    then show ?thesis by (rule Cons.IH)
  next
    case None
    with Cons.prems p obtain rs' where
      "deepcopy_satellites sats ((r, length h) # memo) (h @ [h ! r]) = Inr (rs', h')"
      by (auto split: sum.splits if_splits)
    then have "prefix (h @ [h ! r]) h'" by (rule Cons.IH)
    then show ?thesis by (rule append_prefixD)
  qed
qed

lemma deepcopy_keeps:
  assumes "deepcopy md h = Inr (md', h1)" and "r < length h"
  shows "h1 ! r = h ! r \<and> r < length h1"
proof -
  from assms(1) obtain rs where "deepcopy_satellites (satellites md) [] h = Inr (rs, h1)"
    by (auto simp: deepcopy_def split: sum.splits)
  then have "prefix h h1" by (rule deepcopy_satellites_prefix)
  then obtain ext where "h1 = h @ ext" by (auto simp: prefix_def)
  with assms(2) show ?thesis by (simp add: nth_append)
qed

lemma select_bands_Some_Inr:
  assumes "select_bands (Some cfg) subtile h = (Inr (stk, md), h')"
  shows "\<exists>new_metadata h1. deepcopy (tile_metadata subtile) h = Inr (new_metadata, h1) \<and>
           select_loop cfg subtile (map fst cfg) ([], new_metadata\<lparr>satellites := []\<rparr>, h1)
             = (Inr (stk, md), h')"
  using assms by (auto simp: select_bands_def split: sum.splits)

text \<open>What \<open>__select_bands\<close> returns for one source of the configuration.\<close>

lemma select_bands_source_order:
  assumes sel: "select_bands (Some cfg) subtile h = (Inr (stk, md), h')"
    and dist: "distinct (map fst cfg)"
    and inj: "inj_on (map_of (satellites (tile_metadata subtile))) (set (map fst cfg))"
    and S: "(S, requested) \<in> set cfg"
    and r: "map_of (satellites (tile_metadata subtile)) S = Some r" "r < length h"
    and arr: "map_of (satellite_stack subtile) S = Some arr" "wf_ndarray arr"
    and idx: "indices = select_indices (bands (h ! r)) requested"
  shows "\<exists>sliced. map_of stk S = Some sliced \<and>
           take_bands arr indices = Inr sliced \<and>
           shape sliced ! 1 = length indices \<and>
           (\<forall>t k. t < shape arr ! 0 \<longrightarrow> k < length indices \<longrightarrow>
              band_block sliced t k = band_block arr t (indices ! k)) \<and>
           sorted_wrt (<) indices \<and>
           map ((!) (bands (h ! r))) indices = filter (\<lambda>b. b \<in> set requested) (bands (h ! r)) \<and>
           (subseq requested (bands (h ! r)) \<and> distinct (bands (h ! r)) \<longrightarrow>
              map ((!) (bands (h ! r))) indices = requested) \<and>
           map_of (satellites md) S = Some r \<and>
           bands (h' ! r) = requested"
proof -
  from select_bands_Some_Inr [OF sel] obtain new_metadata h1 where
    dc: "deepcopy (tile_metadata subtile) h = Inr (new_metadata, h1)"
    and loop: "select_loop cfg subtile (map fst cfg) ([], new_metadata\<lparr>satellites := []\<rparr>, h1)
                 = (Inr (stk, md), h')"
    by blast
  from deepcopy_keeps [OF dc r(2)] have h1: "h1 ! r = h ! r" by simp
  from S have Sin: "S \<in> set (map fst cfg)" by force
  from dist S have cfgS: "map_of cfg S = Some requested" by simp
  from select_loop_key [OF loop dist inj Sin] r(1) cfgS arr(1) h1 idx
  obtain sliced where tb: "take_bands arr indices = Inr sliced"
    and st: "map_of stk S = Some sliced"
    and mdS: "map_of (satellites md) S = Some r"
    and bs: "bands (h' ! r) = requested"
    by auto
  from take_bands_Inr [OF tb] have sh: "shape sliced ! 1 = length indices" by auto
  have blocks: "\<forall>t k. t < shape arr ! 0 \<longrightarrow> k < length indices \<longrightarrow>
              band_block sliced t k = band_block arr t (indices ! k)"
    using take_bands_block [OF tb arr(2)] by blast
  have names: "map ((!) (bands (h ! r))) indices = filter (\<lambda>b. b \<in> set requested) (bands (h ! r))"
    unfolding idx by (rule select_indices_names)
  have sub: "subseq requested (bands (h ! r)) \<and> distinct (bands (h ! r)) \<longrightarrow>
              map ((!) (bands (h ! r))) indices = requested"
    unfolding names by (auto intro: filter_subseq_distinct)
  have srt: "sorted_wrt (<) indices" unfolding idx by (rule select_indices_sorted)
  from st tb sh blocks srt names sub mdS bs show ?thesis by blast
qed

text \<open>
  C2. The claim: the array of a source restricted to a list of its bands is sliced in the
  order of the requested list, so that its band axis has the count and the order of that
  list, which is also the band list of the returned metadata. The code: asked for
  [VH, VV] on a source whose bands are [VV, VH], with the values 10 for VV and 20 for VH,
  \<open>__select_indices\<close> returns the positions [0, 1] in the source's order; the returned
  array starts with 10, the value of VV, where the requested list starts with VH, whose
  value is 20, and the returned metadata lists [VH, VV].
\<close>

theorem requested_order_mismatch:
  "getitem (example_dse (Some [(''sentinel1'', [''VH'', ''VV''])]) [''Tile1_0_0.npz''])
     example_load 0 [] =
     (Inr (Array \<lparr>shape = [2, 1, 1], data = [10, 20]\<rparr>, \<lparr>shape = [1, 1, 1], data = [2]\<rparr>,
           \<lparr>satellites = [(''sentinel1'', 0)]\<rparr>),
      [\<lparr>bands = [''VH'', ''VV'']\<rparr>, \<lparr>bands = [''0'']\<rparr>, \<lparr>bands = [''VV'', ''VH'']\<rparr>,
       \<lparr>bands = [''0'']\<rparr>]) \<and>
   select_indices [''VV'', ''VH''] [''VH'', ''VV''] = [0, 1] \<and>
   map ((!) [''VV'', ''VH'']) (select_indices [''VV'', ''VH''] [''VH'', ''VV'']) \<noteq> [''VH'', ''VV''] \<and>
   item example_source [0, 1, 0, 0] = Inr 20 \<and>
   item \<lparr>shape = [2, 1, 1], data = [10, 20 :: int]\<rparr> [0, 0, 0] = Inr 10"
  by (simp add: example_defs accessor_defs enumerate_eq_zip item_def ravel_index_def)

text \<open>
  C3. The call does not leave the loaded bundle's metadata unchanged: the loader puts the
  metadata object of sentinel1 at address 0 with the bands [VV, VH]; after the call with
  the configuration sentinel1: [VH], the object at address 0 has the bands [VH], and the
  returned metadata refers to that same object, not to the copy at address 2.
\<close>

theorem original_metadata_mutated:
  "example_load ''Tile1_0_0.npz'' [] =
     (Inr (example_subtile 0), [\<lparr>bands = [''VV'', ''VH'']\<rparr>, \<lparr>bands = [''0'']\<rparr>]) \<and>
   satellites (tile_metadata (example_subtile 0)) = [(''sentinel1'', 0), (''gt'', 1)] \<and>
   getitem (example_dse (Some [(''sentinel1'', [''VH''])]) [''Tile1_0_0.npz'']) example_load 0 [] =
     (Inr (Array \<lparr>shape = [1, 1, 1], data = [20]\<rparr>, \<lparr>shape = [1, 1, 1], data = [2]\<rparr>,
           \<lparr>satellites = [(''sentinel1'', 0)]\<rparr>),
      [\<lparr>bands = [''VH'']\<rparr>, \<lparr>bands = [''0'']\<rparr>, \<lparr>bands = [''VV'', ''VH'']\<rparr>, \<lparr>bands = [''0'']\<rparr>])"
  by (simp add: example_defs accessor_defs enumerate_eq_zip)

text \<open>
  C4, as the specification states it, fails: with a configuration that lists sentinel1
  only, the returned metadata has no entry for the ground truth.
\<close>

theorem ground_truth_metadata_counterexample:
  "getitem (example_dse (Some [(''sentinel1'', [''VV'', ''VH''])]) [''Tile1_0_0.npz''])
     example_load 0 [] =
     (Inr (Array \<lparr>shape = [2, 1, 1], data = [10, 20]\<rparr>, \<lparr>shape = [1, 1, 1], data = [2]\<rparr>,
           \<lparr>satellites = [(''sentinel1'', 0)]\<rparr>),
      [\<lparr>bands = [''VV'', ''VH'']\<rparr>, \<lparr>bands = [''0'']\<rparr>, \<lparr>bands = [''VV'', ''VH'']\<rparr>,
       \<lparr>bands = [''0'']\<rparr>]) \<and>
   map_of (satellites \<lparr>satellites = [(''sentinel1'', 0)]\<rparr>) ''gt'' = None"
  by code_simp

text \<open>
  C4, amended. With an active configuration that does not list the ground-truth source
  and no transform, the returned label is built from the whole ground-truth array of the
  loaded bundle (its values minus 1, under its shape without the time axis), and the
  returned metadata has exactly the keys of the configuration as its sources, so it has no
  entry for the ground truth.
\<close>

theorem getitem_ground_truth_passthrough:
  fixes self :: "('a::{minus,one}) DSE"
  assumes "transform self = None"
    and "selected_bands self = Some cfg"
    and "''gt'' \<notin> set (map fst cfg)"
    and "tiles_getitem (tiles self) idx = Inr path"
    and "load path h = (Inr subtile, h1)"
    and "getitem self load idx h = (Inr (X, y, md), h')"
  shows "\<exists>gt. map_of (satellite_stack subtile) ''gt'' = Some gt \<and>
           shape gt = 1 # shape y \<and>
           data y = map (\<lambda>v. v - 1) (data gt) \<and>
           set (map fst (satellites md)) = set (map fst cfg) \<and>
           map_of (satellites md) ''gt'' = None"
proof -
  from assms have "assemble self subtile h1 = (Inr (X, y, md), h')"
    by (simp add: getitem_loaded)
  from assemble_no_transform [OF this assms(1)] assms(2)
  obtain stk gt y1 where sel: "select_bands (Some cfg) subtile h1 = (Inr (stk, md), h')"
    and gt: "map_of (satellite_stack subtile) ''gt'' = Some gt"
    and sq: "squeeze gt = Inr y1" and y: "y = sub_scalar y1 1"
    by auto
  from squeeze_Inr [OF sq] y
  have lab: "shape gt = 1 # shape y" "data y = map (\<lambda>v. v - 1) (data gt)"
    by (simp_all add: sub_scalar_def)
  from select_bands_Some_Inr [OF sel] obtain new_metadata h2 where
    "select_loop cfg subtile (map fst cfg) ([], new_metadata\<lparr>satellites := []\<rparr>, h2)
       = (Inr (stk, md), h')"
    by blast
  from select_loop_keys [OF this]
  have keys: "set (map fst (satellites md)) = set (map fst cfg)" by simp
  with assms(3) have "''gt'' \<notin> fst ` set (satellites md)" by simp
  then have "map_of (satellites md) ''gt'' = None" by (simp add: map_of_eq_None_iff)
  with gt lab keys show ?thesis by blast
qed

theorem getitem_ground_truth_passthrough_witness:
  "\<exists>gt. map_of (satellite_stack (example_subtile 0)) ''gt'' = Some gt \<and>
     shape gt = [1, 1, 1, 1] \<and> [2] = map (\<lambda>v. v - 1) (data gt) \<and>
     map_of [(''sentinel1'', 0 :: nat)] ''gt'' = None"
proof -
  let ?self = "example_dse (Some [(''sentinel1'', [''VH''])]) [''Tile1_0_0.npz'']"
  have t: "transform ?self = None" by (simp add: example_dse_def)
  have c: "selected_bands ?self = Some [(''sentinel1'', [''VH''])]" by (simp add: example_dse_def)
  have n: "''gt'' \<notin> set (map fst [(''sentinel1'', [''VH''])])" by simp
  have i: "tiles_getitem (tiles ?self) 0 = Inr ''Tile1_0_0.npz''"
    by (simp add: example_dse_def tiles_getitem_def)
  have l: "example_load ''Tile1_0_0.npz'' [] = (Inr (example_subtile 0), example_objects)"
    by (simp add: example_load_def)
  have g: "getitem ?self example_load 0 [] =
     (Inr (Array \<lparr>shape = [1, 1, 1], data = [20]\<rparr>, \<lparr>shape = [1, 1, 1], data = [2]\<rparr>,
           \<lparr>satellites = [(''sentinel1'', 0)]\<rparr>),
      [\<lparr>bands = [''VH'']\<rparr>, \<lparr>bands = [''0'']\<rparr>, \<lparr>bands = [''VV'', ''VH'']\<rparr>, \<lparr>bands = [''0'']\<rparr>])"
    by (simp add: example_defs accessor_defs enumerate_eq_zip)
  from getitem_ground_truth_passthrough [OF t c n i l g] show ?thesis by simp
qed

section \<open>Properties of the lookup by identifier\<close>

lemma digit_cases:
  assumes "d < 10"
  obtains "d = 0" | "d = 1" | "d = 2" | "d = 3" | "d = 4" | "d = 5" | "d = 6" | "d = 7"
    | "d = 8" | "d = (9::nat)"
proof -
  from assms have "d = 0 \<or> d = 1 \<or> d = 2 \<or> d = 3 \<or> d = 4 \<or> d = 5 \<or> d = 6 \<or> d = 7
      \<or> d = 8 \<or> d = 9"
    by arith
  with that show thesis by blast
qed

lemma digit_char_is_digit: "d < 10 \<Longrightarrow> is_digit (digit_char d)"
  by (erule digit_cases) (simp_all add: is_digit_def digit_char_def)

lemma digit_value_digit_char: "d < 10 \<Longrightarrow> digit_value (digit_char d) = d"
  by (erule digit_cases) (simp_all add: digit_value_def digit_char_def)

lemma str_nat_digits: "list_all is_digit (str_nat n)"
proof (induction n rule: str_nat.induct)
  case (1 n)
  show ?case
  proof (cases "n < 10")
    case True
    then show ?thesis by (subst str_nat.simps) (simp add: digit_char_is_digit)
  next
    case False
    with "1" show ?thesis
      by (subst str_nat.simps) (simp add: digit_char_is_digit)
  qed
qed

lemma str_nat_nonempty: "str_nat n \<noteq> []"
  by (subst str_nat.simps) simp

lemma int_of_digits_snoc:
  "int_of_digits (ds @ [c]) = 10 * int_of_digits ds + int (digit_value c)"
  by (simp add: int_of_digits_def)

lemma int_of_digits_str_nat: "int_of_digits (str_nat n) = int n"
proof (induction n rule: str_nat.induct)
  case (1 n)
  show ?case
  proof (cases "n < 10")
    case True
    then show ?thesis
      by (subst str_nat.simps) (simp add: int_of_digits_def digit_value_digit_char)
  next
    case False
    then have "int_of_digits (str_nat (n div 10)) = int (n div 10)" by (rule "1")
    moreover have "str_nat n = str_nat (n div 10) @ [digit_char (n mod 10)]"
      using False by (subst str_nat.simps) simp
    ultimately have "int_of_digits (str_nat n) = 10 * int (n div 10) + int (n mod 10)"
      by (simp add: int_of_digits_snoc digit_value_digit_char)
    also have "\<dots> = int n" by (simp add: zdiv_int zmod_int)
    finally show ?thesis .
  qed
qed

lemma backtrack_longest:
  assumes "0 < n" and "m (drop n s) = Some gs"
  shows "backtrack m s n = Some (take n s # gs)"
  using assms by (cases n) simp_all

lemma backtrack_Some:
  assumes "backtrack m s n = Some r"
  shows "\<exists>k gs. 0 < k \<and> k \<le> n \<and> m (drop k s) = Some gs \<and> r = take k s # gs"
  using assms
proof (induction n)
  case 0
  then show ?case by simp
next
  case (Suc n)
  show ?case
  proof (cases "m (drop (Suc n) s)")
    case None
    with Suc.prems have "backtrack m s n = Some r" by simp
    from Suc.IH [OF this] obtain k gs where
      "0 < k" "k \<le> n" "m (drop k s) = Some gs" "r = take k s # gs" by blast
    then have "0 < k \<and> k \<le> Suc n \<and> m (drop k s) = Some gs \<and> r = take k s # gs" by simp
    then show ?thesis by blast
  next
    case (Some gs)
    with Suc.prems have "r = take (Suc n) s # gs" by simp
    with Some show ?thesis by blast
  qed
qed

lemma match_here_groups:
  assumes "match_here p s = Some gs"
  shows "length gs = length (filter (\<lambda>it. it = Digits) p)"
  using assms
proof (induction p arbitrary: s gs)
  case Nil
  then show ?case by simp
next
  case (Cons it p)
  show ?case
  proof (cases it)
    case (Lit c)
    with Cons.prems obtain xs where "match_here p xs = Some gs"
      by (auto split: list.splits if_splits)
    from Cons.IH [OF this] Lit show ?thesis by simp
  next
    case AnyChar
    with Cons.prems obtain xs where "match_here p xs = Some gs"
      by (auto split: list.splits if_splits)
    from Cons.IH [OF this] AnyChar show ?thesis by simp
  next
    case Digits
    with Cons.prems have "backtrack (match_here p) s (length (takeWhile is_digit s)) = Some gs"
      by simp
    from backtrack_Some [OF this] obtain k gs' where
      "match_here p (drop k s) = Some gs'" "gs = take k s # gs'" by blast
    with Cons.IH [of "drop k s" gs'] Digits show ?thesis by simp
  qed
qed

lemma search_Some_match:
  assumes "search p s = Some gs"
  shows "\<exists>s'. match_here p s' = Some gs"
  using assms
  by (induction p s rule: search.induct) (auto split: option.splits)

lemma search_pattern_groups:
  assumes "search pattern name = Some gs"
  shows "\<exists>a b c. gs = [a, b, c]"
proof -
  from search_Some_match [OF assms] obtain s' where "match_here pattern s' = Some gs" by blast
  from match_here_groups [OF this] have "length gs = 3" by (simp add: pattern_def)
  then show ?thesis by (auto simp: length_Suc_conv numeral_3_eq_3)
qed

lemma match_digits_group:
  assumes "list_all is_digit ds" and "ds \<noteq> []"
    and "rest = [] \<or> \<not> is_digit (hd rest)"
    and "match_here p rest = Some gs"
  shows "match_here (Digits # p) (ds @ rest) = Some (ds # gs)"
proof -
  have "takeWhile is_digit rest = []"
    using assms(3) by (cases rest) auto
  with assms(1) have tw: "takeWhile is_digit (ds @ rest) = ds"
    by (simp add: takeWhile_append2 list_all_iff)
  have "backtrack (match_here p) (ds @ rest) (length ds) = Some (take (length ds) (ds @ rest) # gs)"
    using assms(2,4) by (intro backtrack_longest) simp_all
  with tw show ?thesis by simp
qed

lemma search_tile_name:
  "search pattern (''Tile'' @ str_nat a @ ''_'' @ str_nat b @ ''_'' @ str_nat c @ ''.npz'')
     = Some [str_nat a, str_nat b, str_nat c]"
proof -
  have "\<not> is_digit CHR ''_''" "\<not> is_digit CHR ''.''" by (simp_all add: is_digit_def)
  have 3: "match_here (Digits # AnyChar # map Lit ''npz'') (str_nat c @ ''.npz'') = Some [str_nat c]"
    by (rule match_digits_group) (simp_all add: str_nat_digits str_nat_nonempty is_digit_def)
  have 2: "match_here (Digits # Lit CHR ''_'' # Digits # AnyChar # map Lit ''npz'')
             (str_nat b @ ''_'' @ str_nat c @ ''.npz'') = Some [str_nat b, str_nat c]"
    by (rule match_digits_group) (use 3 in \<open>simp_all add: str_nat_digits str_nat_nonempty is_digit_def\<close>)
  have 1: "match_here (Digits # Lit CHR ''_'' # Digits # Lit CHR ''_'' # Digits # AnyChar # map Lit ''npz'')
             (str_nat a @ ''_'' @ str_nat b @ ''_'' @ str_nat c @ ''.npz'')
           = Some [str_nat a, str_nat b, str_nat c]"
    by (rule match_digits_group) (use 2 in \<open>simp_all add: str_nat_digits str_nat_nonempty is_digit_def\<close>)
  then have "match_here pattern (''Tile'' @ str_nat a @ ''_'' @ str_nat b @ ''_'' @ str_nat c @ ''.npz'')
               = Some [str_nat a, str_nat b, str_nat c]"
    by (simp add: pattern_def)
  then show ?thesis by simp
qed

lemma find_loop_no_match:
  assumes "search pattern name = None"
  shows "find_loop self load tile_id i j k (name # rest) h = (Inl AttributeError, h)"
  using assms by simp

lemma find_loop_hit:
  assumes "parsed_triple name = Some (tile_id, i, j)"
  shows "find_loop self load tile_id i j k (name # rest) h = getitem self load (int k) h"
proof -
  from assms obtain gs where gs: "search pattern name = Some gs"
    by (auto simp: parsed_triple_def split: option.splits)
  from search_pattern_groups [OF gs] obtain a b c where "gs = [a, b, c]" by blast
  with gs assms show ?thesis by (simp add: parsed_triple_def)
qed

lemma find_loop_miss:
  assumes "search pattern name \<noteq> None" and "parsed_triple name \<noteq> Some (tile_id, i, j)"
  shows "find_loop self load tile_id i j k (name # rest) h
           = find_loop self load tile_id i j (Suc k) rest h"
proof -
  from assms(1) obtain gs where gs: "search pattern name = Some gs" by auto
  from search_pattern_groups [OF gs] obtain a b c where "gs = [a, b, c]" by blast
  with gs assms(2) show ?thesis by (auto simp: parsed_triple_def)
qed

lemma find_loop_first_match:
  assumes "k < length ts"
    and "parsed_triple (ts ! k) = Some (tile_id, i, j)"
    and "\<forall>m<k. search pattern (ts ! m) \<noteq> None \<and> parsed_triple (ts ! m) \<noteq> Some (tile_id, i, j)"
  shows "find_loop self load tile_id i j k0 ts h = getitem self load (int (k0 + k)) h"
  using assms
proof (induction ts arbitrary: k k0)
  case Nil
  then show ?case by simp
next
  case (Cons name rest)
  show ?case
  proof (cases k)
    case 0
    with Cons.prems(2) have "parsed_triple name = Some (tile_id, i, j)" by simp
    then have "find_loop self load tile_id i j k0 (name # rest) h = getitem self load (int k0) h"
      by (rule find_loop_hit)
    with 0 show ?thesis by (simp del: find_loop.simps)
  next
    case (Suc k')
    with Cons.prems(3) have "search pattern name \<noteq> None" "parsed_triple name \<noteq> Some (tile_id, i, j)"
      by fastforce+
    then have "find_loop self load tile_id i j k0 (name # rest) h
                 = find_loop self load tile_id i j (Suc k0) rest h"
      by (rule find_loop_miss)
    also have "\<dots> = getitem self load (int (Suc k0 + k')) h"
    proof (rule Cons.IH)
      show "k' < length rest" using Cons.prems(1) Suc by simp
      show "parsed_triple (rest ! k') = Some (tile_id, i, j)" using Cons.prems(2) Suc by simp
      show "\<forall>m<k'. search pattern (rest ! m) \<noteq> None \<and> parsed_triple (rest ! m) \<noteq> Some (tile_id, i, j)"
        using Cons.prems(3) Suc by fastforce
    qed
    finally show ?thesis using Suc by (simp del: find_loop.simps)
  qed
qed

lemma find_loop_first_failure:
  assumes "k < length ts"
    and "search pattern (ts ! k) = None"
    and "\<forall>m<k. parsed_triple (ts ! m) \<noteq> Some (tile_id, i, j)"
  shows "find_loop self load tile_id i j k0 ts h = (Inl AttributeError, h)"
  using assms
proof (induction ts arbitrary: k k0)
  case Nil
  then show ?case by simp
next
  case (Cons name rest)
  show ?case
  proof (cases k)
    case 0
    with Cons.prems(2) show ?thesis by simp
  next
    case (Suc k')
    show ?thesis
    proof (cases "search pattern name = None")
      case True
      then show ?thesis by simp
    next
      case False
      moreover from Cons.prems(3) Suc have "parsed_triple name \<noteq> Some (tile_id, i, j)"
        by fastforce
      ultimately have "find_loop self load tile_id i j k0 (name # rest) h
                 = find_loop self load tile_id i j (Suc k0) rest h"
        by (rule find_loop_miss)
      also have "\<dots> = (Inl AttributeError, h)"
      proof (rule Cons.IH)
        show "k' < length rest" using Cons.prems(1) Suc by simp
        show "search pattern (rest ! k') = None" using Cons.prems(2) Suc by simp
        show "\<forall>m<k'. parsed_triple (rest ! m) \<noteq> Some (tile_id, i, j)"
          using Cons.prems(3) Suc by fastforce
      qed
      finally show ?thesis .
    qed
  qed
qed

lemma find_loop_exhausted:
  assumes "list_all (\<lambda>name. search pattern name \<noteq> None) ts"
    and "list_all (\<lambda>name. parsed_triple name \<noteq> Some (tile_id, i, j)) ts"
  shows "find_loop self load tile_id i j k0 ts h
           = (Inl (ValueError (not_found_message tile_id i j)), h)"
  using assms
proof (induction ts arbitrary: k0)
  case Nil
  then show ?case by simp
next
  case (Cons name rest)
  then have "find_loop self load tile_id i j k0 (name # rest) h
               = find_loop self load tile_id i j (Suc k0) rest h"
    by (intro find_loop_miss) simp_all
  with Cons show ?case by (simp del: find_loop.simps)
qed

lemma parsed_tile_file_name:
  assumes "0 \<le> a" "0 \<le> b" "0 \<le> c"
  shows "parsed_triple (tile_file_name a b c) = Some (a, b, c)"
proof -
  have "tile_file_name a b c
          = ''Tile'' @ str_nat (nat a) @ ''_'' @ str_nat (nat b) @ ''_'' @ str_nat (nat c) @ ''.npz''"
    using assms by (simp add: tile_file_name_def str_int_def)
  then have "search pattern (tile_file_name a b c)
               = Some [str_nat (nat a), str_nat (nat b), str_nat (nat c)]"
    by (simp only: search_tile_name)
  then show ?thesis using assms by (simp add: parsed_triple_def int_of_digits_str_nat)
qed

lemma split_at_separator:
  assumes "c \<notin> set xs" and "c \<notin> set xs'" and "xs @ c # ys = xs' @ c # ys'"
  shows "xs = xs' \<and> ys = ys'"
  using assms
proof (induction xs arbitrary: xs')
  case Nil
  then show ?case by (cases xs') auto
next
  case (Cons x xs)
  then show ?case by (cases xs') auto
qed

lemma str_nat_inject:
  assumes "str_nat m = str_nat n"
  shows "m = n"
proof -
  from assms have "int_of_digits (str_nat m) = int_of_digits (str_nat n)" by simp
  then show ?thesis by (simp add: int_of_digits_str_nat)
qed

lemma str_nat_chars: "c \<in> set (str_nat n) \<Longrightarrow> is_digit c"
  using str_nat_digits [of n] by (simp add: list_all_iff)

lemma str_nat_not_minus: "str_nat n \<noteq> CHR ''-'' # s"
proof
  assume "str_nat n = CHR ''-'' # s"
  then have "CHR ''-'' \<in> set (str_nat n)" by simp
  then have "is_digit CHR ''-''" by (rule str_nat_chars)
  then show False by (simp add: is_digit_def)
qed

lemma str_int_inject:
  assumes "str_int v = str_int w"
  shows "v = w"
proof (cases "v < 0")
  case True
  show ?thesis
  proof (cases "w < 0")
    case w: True
    with True assms have "str_nat (nat (- v)) = str_nat (nat (- w))" by (simp add: str_int_def)
    then have "nat (- v) = nat (- w)" by (rule str_nat_inject)
    with True w show ?thesis by simp
  next
    case False
    with True assms have "str_nat (nat w) = CHR ''-'' # str_nat (nat (- v))"
      by (simp add: str_int_def)
    with str_nat_not_minus show ?thesis by blast
  qed
next
  case False
  show ?thesis
  proof (cases "w < 0")
    case True
    with False assms have "str_nat (nat v) = CHR ''-'' # str_nat (nat (- w))"
      by (simp add: str_int_def)
    with str_nat_not_minus show ?thesis by blast
  next
    case w: False
    with False assms have "str_nat (nat v) = str_nat (nat w)" by (simp add: str_int_def)
    then have "nat v = nat w" by (rule str_nat_inject)
    with False w show ?thesis by simp
  qed
qed

lemma str_int_no_underscore: "CHR ''_'' \<notin> set (str_int v)"
proof
  assume "CHR ''_'' \<in> set (str_int v)"
  then have "CHR ''_'' \<in> set (str_nat (nat (- v))) \<or> CHR ''_'' \<in> set (str_nat (nat v))"
    by (auto simp: str_int_def split: if_splits)
  then have "is_digit CHR ''_''" by (auto dest: str_nat_chars)
  then show False by (simp add: is_digit_def)
qed

lemma not_found_message_inject:
  assumes "not_found_message a b c = not_found_message a' b' c'"
  shows "a = a' \<and> b = b' \<and> c = c'"
proof -
  from assms have 1: "str_int a @ CHR ''_'' # (str_int b @ CHR ''_'' # str_int c)
                    = str_int a' @ CHR ''_'' # (str_int b' @ CHR ''_'' # str_int c')"
    by (simp add: not_found_message_def tile_file_name_def)
  from split_at_separator [OF str_int_no_underscore str_int_no_underscore 1]
  have a: "str_int a = str_int a'"
    and 2: "str_int b @ CHR ''_'' # str_int c = str_int b' @ CHR ''_'' # str_int c'"
    by simp_all
  from split_at_separator [OF str_int_no_underscore str_int_no_underscore 2]
  have "str_int b = str_int b'" "str_int c = str_int c'" by simp_all
  with a show ?thesis by (simp add: str_int_inject)
qed

text \<open>
  C7, amended. For non-negative \<open>tile_id\<close>, \<open>i\<close> and \<open>j\<close>, if the file at position
  \<open>k\<close> of the list is named \<open>Tile{tile_id}_{i}_{j}.npz\<close>, and every file name before
  position \<open>k\<close> matches the pattern and is read as a different triple, then
  \<open>find_subtile\<close> returns exactly what the positional accessor returns at \<open>k\<close>.
\<close>

theorem find_subtile_getitem:
  fixes self :: "('a::{minus,one}) DSE"
  assumes "0 \<le> tile_id" and "0 \<le> i" and "0 \<le> j"
    and "k < length (tiles self)"
    and "tiles self ! k = tile_file_name tile_id i j"
    and "\<forall>m<k. search pattern (tiles self ! m) \<noteq> None \<and>
               parsed_triple (tiles self ! m) \<noteq> Some (tile_id, i, j)"
  shows "find_subtile self load tile_id i j h = getitem self load (int k) h"
proof -
  from assms(1,2,3,5) have "parsed_triple (tiles self ! k) = Some (tile_id, i, j)"
    by (simp add: parsed_tile_file_name)
  from find_loop_first_match [OF assms(4) this assms(6), of self load 0 h]
  show ?thesis by (simp add: find_subtile_def)
qed

theorem find_subtile_getitem_witness:
  "find_subtile (example_dse None [''Tile2_0_0.npz'', ''Tile1_0_0.npz'']) named_load 1 0 0 []
     = getitem (example_dse None [''Tile2_0_0.npz'', ''Tile1_0_0.npz'']) named_load 1 []"
proof -
  let ?self = "example_dse None [''Tile2_0_0.npz'', ''Tile1_0_0.npz'']"
  have k: "1 < length (tiles ?self)" by (simp add: example_dse_def)
  have n: "tiles ?self ! 1 = tile_file_name 1 0 0" by code_simp
  have "search pattern ''Tile2_0_0.npz'' \<noteq> None" by code_simp
  moreover have "parsed_triple ''Tile2_0_0.npz'' \<noteq> Some (1, 0, 0)" by code_simp
  ultimately have e: "\<forall>m<1. search pattern (tiles ?self ! m) \<noteq> None \<and>
               parsed_triple (tiles ?self ! m) \<noteq> Some (1, 0, 0)"
    by (simp add: example_dse_def)
  from find_subtile_getitem [OF _ _ _ k n e, of named_load "[]"] show ?thesis by simp
qed

text \<open>
  C7, as the specification states it, fails: the list holds the file \<open>Tile1_0_0.npz\<close> at
  position 1, but \<open>Tile01_0_0.npz\<close> at position 0 is read as the triple (1, 0, 0) too, and
  \<open>find_subtile\<close> returns the sample of position 0 (label value 13), not that of
  position 1 (label value 12).
\<close>

theorem find_subtile_first_match_counterexample:
  "tiles (example_dse None [''Tile01_0_0.npz'', ''Tile1_0_0.npz'']) ! 1 = tile_file_name 1 0 0 \<and>
   find_subtile (example_dse None [''Tile01_0_0.npz'', ''Tile1_0_0.npz'']) named_load 1 0 0 [] =
     (Inr (Array \<lparr>shape = [2, 1, 1], data = [10, 20]\<rparr>, \<lparr>shape = [1, 1, 1], data = [13]\<rparr>,
           \<lparr>satellites = [(''sentinel1'', 2), (''gt'', 3)]\<rparr>),
      [\<lparr>bands = [''VV'', ''VH'']\<rparr>, \<lparr>bands = [''0'']\<rparr>, \<lparr>bands = [''VV'', ''VH'']\<rparr>,
       \<lparr>bands = [''0'']\<rparr>]) \<and>
   getitem (example_dse None [''Tile01_0_0.npz'', ''Tile1_0_0.npz'']) named_load 1 [] =
     (Inr (Array \<lparr>shape = [2, 1, 1], data = [10, 20]\<rparr>, \<lparr>shape = [1, 1, 1], data = [12]\<rparr>,
           \<lparr>satellites = [(''sentinel1'', 2), (''gt'', 3)]\<rparr>),
      [\<lparr>bands = [''VV'', ''VH'']\<rparr>, \<lparr>bands = [''0'']\<rparr>, \<lparr>bands = [''VV'', ''VH'']\<rparr>,
       \<lparr>bands = [''0'']\<rparr>])"
  by code_simp

text \<open>
  C8, amended. If every file name of the list matches the pattern and none is read as the
  triple (tile_id, i, j), then \<open>find_subtile\<close> raises the ValueError with the message
  \<open>Could not find Tile{tile_id}_{i}_{j}.npz in the dataset\<close>, and no other triple gives
  that message.
\<close>

theorem find_subtile_not_found:
  fixes self :: "('a::{minus,one}) DSE"
  assumes "list_all (\<lambda>name. search pattern name \<noteq> None) (tiles self)"
    and "list_all (\<lambda>name. parsed_triple name \<noteq> Some (tile_id, i, j)) (tiles self)"
  shows "find_subtile self load tile_id i j h =
           (Inl (ValueError (''Could not find Tile'' @ str_int tile_id @ ''_'' @ str_int i @ ''_''
                               @ str_int j @ ''.npz in the dataset'')), h) \<and>
         (\<forall>a b c. not_found_message a b c = not_found_message tile_id i j \<longrightarrow>
            a = tile_id \<and> b = i \<and> c = j)"
proof -
  have "find_subtile self load tile_id i j h = (Inl (ValueError (not_found_message tile_id i j)), h)"
    unfolding find_subtile_def using assms by (rule find_loop_exhausted)
  then show ?thesis
    using not_found_message_inject by (auto simp: not_found_message_def tile_file_name_def)
qed

theorem find_subtile_not_found_witness:
  "find_subtile (example_dse None [''Tile2_0_0.npz'', ''Tile1_0_0.npz'']) named_load 1 0 1 [] =
     (Inl (ValueError ''Could not find Tile1_0_1.npz in the dataset''), [])"
proof -
  let ?self = "example_dse None [''Tile2_0_0.npz'', ''Tile1_0_0.npz'']"
  have a: "list_all (\<lambda>name. search pattern name \<noteq> None) (tiles ?self)" by code_simp
  have b: "list_all (\<lambda>name. parsed_triple name \<noteq> Some (1, 0, 1)) (tiles ?self)" by code_simp
  have s: "str_int 1 = ''1''" "str_int 0 = ''0''" by code_simp+
  from find_subtile_not_found [OF a b, of named_load "[]"] s show ?thesis by simp
qed

text \<open>
  C8, as the specification states it, fails: on a list whose only file is \<open>notes.npz\<close>,
  which matches no triple, \<open>find_subtile\<close> raises AttributeError, not the lookup error.
\<close>

theorem find_subtile_not_found_counterexample:
  "parsed_triple ''notes.npz'' = None \<and>
   find_subtile (example_dse None [''notes.npz'']) example_load 1 0 0 [] = (Inl AttributeError, [])"
  by code_simp

text \<open>
  C10. If the file name at position \<open>k\<close> does not match the pattern and no file name
  before position \<open>k\<close> is read as the requested triple, then \<open>find_subtile\<close> raises
  AttributeError (the groups of a failed match), whatever the files after position
  \<open>k\<close> are.
\<close>

theorem find_subtile_unmatched_name:
  fixes self :: "('a::{minus,one}) DSE"
  assumes "k < length (tiles self)"
    and "search pattern (tiles self ! k) = None"
    and "\<forall>m<k. parsed_triple (tiles self ! m) \<noteq> Some (tile_id, i, j)"
  shows "find_subtile self load tile_id i j h = (Inl AttributeError, h)"
  unfolding find_subtile_def using assms by (rule find_loop_first_failure)

theorem find_subtile_unmatched_name_witness:
  "parsed_triple ''Tile1_0_0.npz'' = Some (1, 0, 0) \<and>
   find_subtile (example_dse None [''Tile2_0_0.npz'', ''notes.npz'', ''Tile1_0_0.npz''])
     example_load 1 0 0 [] = (Inl AttributeError, [])"
proof -
  let ?self = "example_dse None [''Tile2_0_0.npz'', ''notes.npz'', ''Tile1_0_0.npz'']"
  have k: "1 < length (tiles ?self)" by (simp add: example_dse_def)
  have n: "search pattern (tiles ?self ! 1) = None" by code_simp
  have "parsed_triple ''Tile2_0_0.npz'' \<noteq> Some (1, 0, 0)" by code_simp
  then have e: "\<forall>m<1. parsed_triple (tiles ?self ! m) \<noteq> Some (1, 0, 0)"
    by (simp add: example_dse_def)
  have l: "parsed_triple ''Tile1_0_0.npz'' = Some (1, 0, 0)" by code_simp
  from find_subtile_unmatched_name [OF k n e, of example_load "[]"] l show ?thesis by simp
qed

end
